theory Spec2Isabelle
  imports Complex_Main "HOL-Library.Sublist" "HOL-Library.AList"
begin

text \<open>
  A shallow embedding of \<open>scripts/fetch_i79_incidents.py\<close>: the fatality estimator
  \<open>extract_fatalities\<close>, the location resolver \<open>infer_location\<close>, the delay-listing parser
  \<open>parse_wv511_i79_incidents\<close>, \<open>apply_manual_overrides\<close> and the merge of the sources in
  \<open>build_dataset\<close>, followed by the properties proved of them. Functions keep the names of
  the source; a raised exception is a value \<open>Inl e\<close> of the result.
\<close>

section \<open>Python text primitives\<close>

text \<open>
  Texts are modelled as \<^typ>\<open>string\<close> and read as ASCII: one \<^typ>\<open>char\<close> per code
  point. The character classes below are the ASCII part of what Python's \<open>str\<close> methods
  and the \<open>re\<close> module (in its default Unicode mode) use; a character outside ASCII is
  left unchanged by \<open>lower\<close> and belongs to no class.
  Python's \<open>needle in text\<close> is \<^const>\<open>sublist\<close> (a contiguous run) and
  \<open>text.startswith(p)\<close> is \<^const>\<open>prefix\<close>.
\<close>

definition ascii_uppercase :: string where
  "ascii_uppercase = ''ABCDEFGHIJKLMNOPQRSTUVWXYZ''"

definition ascii_lowercase :: string where
  "ascii_lowercase = ''abcdefghijklmnopqrstuvwxyz''"

definition is_upper :: "char \<Rightarrow> bool" where
  "is_upper c = (c \<in> set ascii_uppercase)"

definition is_lower :: "char \<Rightarrow> bool" where
  "is_lower c = (c \<in> set ascii_lowercase)"

definition is_alpha :: "char \<Rightarrow> bool" where
  "is_alpha c = (is_upper c \<or> is_lower c)"

definition is_digit :: "char \<Rightarrow> bool" where
  "is_digit c = (c \<in> set ''0123456789'')"

text \<open>\<open>str.isspace\<close> and the class \<open>\s\<close>: tab, LF, VT, FF, CR, FS, GS, RS, US, space.\<close>

definition is_space :: "char \<Rightarrow> bool" where
  "is_space c = (c \<in> set [CHR 0x09, CHR 0x0A, CHR 0x0B, CHR 0x0C, CHR 0x0D,
                            CHR 0x1C, CHR 0x1D, CHR 0x1E, CHR 0x1F, CHR 0x20])"

text \<open>The class \<open>\w\<close>, which decides where \<open>\b\<close> holds.\<close>

definition is_word :: "char \<Rightarrow> bool" where
  "is_word c = (is_alpha c \<or> is_digit c \<or> c = CHR ''_'')"

definition to_lower :: "char \<Rightarrow> char" where
  "to_lower c = (case map_of (zip ascii_uppercase ascii_lowercase) c of
                   Some d \<Rightarrow> d | None \<Rightarrow> c)"

definition to_upper :: "char \<Rightarrow> char" where
  "to_upper c = (case map_of (zip ascii_lowercase ascii_uppercase) c of
                   Some d \<Rightarrow> d | None \<Rightarrow> c)"

text \<open>\<open>text.lower()\<close>\<close>

definition str_lower :: "string \<Rightarrow> string" where
  "str_lower s = map to_lower s"

text \<open>\<open>text.strip()\<close>\<close>

definition str_strip :: "string \<Rightarrow> string" where
  "str_strip s = rev (dropWhile is_space (rev (dropWhile is_space s)))"

text \<open>
  \<open>text.title()\<close>: a letter that follows a non-letter is upper-cased, a letter that
  follows a letter is lower-cased. The flag is "the previous character is a letter".
\<close>

fun title_from :: "bool \<Rightarrow> string \<Rightarrow> string" where
  "title_from prev [] = []"
| "title_from prev (c # cs) =
     (if is_lower c then (if prev then c else to_upper c)
      else if is_upper c then (if prev then to_lower c else c)
      else c) # title_from (is_alpha c) cs"

definition str_title :: "string \<Rightarrow> string" where
  "str_title s = title_from False s"

text \<open>\<open>text[a:b]\<close> for \<open>0 \<le> a \<le> b\<close>.\<close>

definition substr :: "string \<Rightarrow> nat \<Rightarrow> nat \<Rightarrow> string" where
  "substr s a b = take (b - a) (drop a s)"

text \<open>
  \<open>int(digits)\<close> on a run of decimal digits. Python's integers are unbounded; the limit
  that an interpreter may put on the number of digits of a converted string is a setting of
  the interpreter and is not part of the model.
\<close>

definition digit_val :: "char \<Rightarrow> int" where
  "digit_val c = (case map_of (zip ''0123456789'' [0, 1, 2, 3, 4, 5, 6, 7, 8, 9]) c of
                    Some d \<Rightarrow> d | None \<Rightarrow> 0)"

definition int_of_digits :: "string \<Rightarrow> int" where
  "int_of_digits ds = foldl (\<lambda>n c. 10 * n + digit_val c) 0 ds"

section \<open>The regular expressions of the source\<close>

text \<open>
  The fragment of Python's \<open>re\<close> that the source uses: literals, \<open>\d+\<close> and \<open>\s+\<close>
  (greedy), concatenation, alternation (left alternative first), \<open>?\<close> (greedy), one
  capturing group and \<open>\b\<close>. \<open>matches r s p cap\<close> lists, in the order in which the
  backtracking matcher tries them, the ways \<open>r\<close> can match \<open>s\<close> from position \<open>p\<close>:
  each is the end position with the span of group 1.
\<close>

datatype cclass = Digit | Space

fun in_class :: "cclass \<Rightarrow> char \<Rightarrow> bool" where
  "in_class Digit c = is_digit c"
| "in_class Space c = is_space c"

datatype regex =
    Lit string
  | Plus cclass
  | Seq regex regex
  | Alt regex regex
  | Opt regex
  | Group regex
  | WordB

type_synonym span = "(nat \<times> nat) option"

text \<open>\<open>\b\<close> at position \<open>p\<close>: exactly one of the characters before and after is a word character.\<close>

definition word_at :: "string \<Rightarrow> nat \<Rightarrow> bool" where
  "word_at s p = (p < length s \<and> is_word (s ! p))"

definition boundary :: "string \<Rightarrow> nat \<Rightarrow> bool" where
  "boundary s p = ((0 < p \<and> word_at s (p - 1)) \<noteq> word_at s p)"

fun matches :: "regex \<Rightarrow> string \<Rightarrow> nat \<Rightarrow> span \<Rightarrow> (nat \<times> span) list" where
  "matches (Lit w) s p cap = (if prefix w (drop p s) then [(p + length w, cap)] else [])"
| "matches (Plus cl) s p cap =
     map (\<lambda>n. (p + n, cap)) (rev [1 ..< Suc (length (takeWhile (in_class cl) (drop p s)))])"
| "matches (Seq a b) s p cap = concat (map (\<lambda>(e, c). matches b s e c) (matches a s p cap))"
| "matches (Alt a b) s p cap = matches a s p cap @ matches b s p cap"
| "matches (Opt a) s p cap = matches a s p cap @ [(p, cap)]"
| "matches (Group a) s p cap = map (\<lambda>(e, c). (e, Some (p, e))) (matches a s p cap)"
| "matches WordB s p cap = (if boundary s p then [(p, cap)] else [])"

text \<open>
  \<open>re.search\<close>: the leftmost start position at which the pattern matches, with the first
  match found there. The result is (start, end, span of group 1); \<open>n\<close> counts the start
  positions still to try, from \<open>i\<close> up to and including the end of the text.
\<close>

fun re_search_from :: "regex \<Rightarrow> string \<Rightarrow> nat \<Rightarrow> nat \<Rightarrow> (nat \<times> nat \<times> span) option" where
  "re_search_from r s i 0 = None"
| "re_search_from r s i (Suc n) =
     (case matches r s i None of
        [] \<Rightarrow> re_search_from r s (Suc i) n
      | (e, c) # _ \<Rightarrow> Some (i, e, c))"

definition re_search :: "regex \<Rightarrow> string \<Rightarrow> (nat \<times> nat \<times> span) option" where
  "re_search r s = re_search_from r s 0 (Suc (length s))"

text \<open>\<open>match.group(1)\<close>; the empty string stands for a group that took no part.\<close>

definition group1 :: "string \<Rightarrow> (nat \<times> nat \<times> span) \<Rightarrow> string" where
  "group1 s m = (case snd (snd m) of Some (a, b) \<Rightarrow> substr s a b | None \<Rightarrow> [])"

section \<open>Errors\<close>

datatype py_error = KeyError | ValueError | TypeError | OverflowError | AttributeError

section \<open>The fatality estimator\<close>

definition SPELLED_NUMBERS :: "(string \<times> int) list" where
  "SPELLED_NUMBERS =
     [(''one'', 1), (''two'', 2), (''three'', 3), (''four'', 4), (''five'', 5), (''six'', 6)]"

definition fatal_clues :: "string list" where
  "fatal_clues =
     [''fatal'', ''killed'', ''died'', ''dead'', ''medical examiner called'',
      ''pronounced dead'', ''dead at the scene'', ''dead at scene'']"

text \<open>
  \<^verbatim>\<open>(\d+)\s+(?:people|person|victims?)\s+(?:were\s+)?killed\<close>,
  \<^verbatim>\<open>(\d+)\s+dead\<close>, \<^verbatim>\<open>killed\s+(\d+)\<close>, \<^verbatim>\<open>(\d+)\s+fatalit\<close>
\<close>

definition patterns :: "regex list" where
  "patterns =
     [Seq (Group (Plus Digit)) (Seq (Plus Space)
        (Seq (Alt (Lit ''people'') (Alt (Lit ''person'') (Seq (Lit ''victim'') (Opt (Lit ''s'')))))
        (Seq (Plus Space) (Seq (Opt (Seq (Lit ''were'') (Plus Space))) (Lit ''killed''))))),
      Seq (Group (Plus Digit)) (Seq (Plus Space) (Lit ''dead'')),
      Seq (Lit ''killed'') (Seq (Plus Space) (Group (Plus Digit))),
      Seq (Group (Plus Digit)) (Seq (Plus Space) (Lit ''fatalit''))]"

text \<open>\<^verbatim>\<open>(one|two|three|four|five|six)\<close>\<close>

definition spelled_group :: regex where
  "spelled_group =
     Group (Alt (Lit ''one'') (Alt (Lit ''two'') (Alt (Lit ''three'')
       (Alt (Lit ''four'') (Alt (Lit ''five'') (Lit ''six''))))))"

text \<open>\<^verbatim>\<open>\b(one|two|three|four|five|six)\s+dead\b\<close>\<close>

definition spelled_dead :: regex where
  "spelled_dead = Seq WordB (Seq spelled_group (Seq (Plus Space) (Seq (Lit ''dead'') WordB)))"

text \<open>\<^verbatim>\<open>\b(one|two|three|four|five|six)\s+(?:person|people)\s+(?:was|were)\s+killed\b\<close>\<close>

definition spelled_killed :: regex where
  "spelled_killed =
     Seq WordB (Seq spelled_group (Seq (Plus Space)
       (Seq (Alt (Lit ''person'') (Lit ''people'')) (Seq (Plus Space)
       (Seq (Alt (Lit ''was'') (Lit ''were'')) (Seq (Plus Space)
       (Seq (Lit ''killed'') WordB)))))))"

text \<open>
  The loop over \<open>patterns\<close>: the first pattern that matches with a captured value
  \<open>0 < value \<le> 10\<close> returns it; a pattern that matches with another value is passed over,
  and the loop goes on with the next pattern.
\<close>

fun numeric_count :: "regex list \<Rightarrow> string \<Rightarrow> int option" where
  "numeric_count [] lowered = None"
| "numeric_count (pattern # rest) lowered =
     (case re_search pattern lowered of
        None \<Rightarrow> numeric_count rest lowered
      | Some m \<Rightarrow>
          (let v = int_of_digits (group1 lowered m)
           in if 0 < v \<and> v \<le> 10 then Some v else numeric_count rest lowered))"

text \<open>\<open>SPELLED_NUMBERS[word_match.group(1)]\<close>, which raises \<open>KeyError\<close> on a missing key.\<close>

definition spelled_number :: "string \<Rightarrow> py_error + int" where
  "spelled_number w = (case map_of SPELLED_NUMBERS w of Some n \<Rightarrow> Inr n | None \<Rightarrow> Inl KeyError)"

definition extract_fatalities :: "string \<Rightarrow> py_error + int" where
  "extract_fatalities text =
     (let lowered = str_lower text in
      if \<not> (\<exists>clue \<in> set fatal_clues. sublist clue lowered) then Inr 0
      else case numeric_count patterns lowered of
        Some v \<Rightarrow> Inr v
      | None \<Rightarrow>
          (case re_search spelled_dead lowered of
             Some m \<Rightarrow> spelled_number (group1 lowered m)
           | None \<Rightarrow>
               (case re_search spelled_killed lowered of
                  Some m \<Rightarrow> spelled_number (group1 lowered m)
                | None \<Rightarrow> Inr 1)))"

section \<open>Python values\<close>

text \<open>
  What \<open>json.loads\<close> returns, and what the fields \<open>lat\<close>, \<open>lon\<close> and
  \<open>verified_fatalities\<close> of an incident can hold at run time: \<open>None\<close>, a boolean, an
  integer, a float, a string, a list or a dictionary (in insertion order, keys distinct).
\<close>

datatype pyfloat = Finite rat | PosInf | NegInf | NaN

datatype pyval =
    PNone
  | PBool bool
  | PInt int
  | PFloat pyfloat
  | PStr string
  | PList "pyval list"
  | PDict "(string \<times> pyval) list"

text \<open>\<open>d.get(key, default)\<close>\<close>

definition dict_get :: "(string \<times> pyval) list \<Rightarrow> string \<Rightarrow> pyval \<Rightarrow> pyval" where
  "dict_get d key dflt = (case map_of d key of Some v \<Rightarrow> v | None \<Rightarrow> dflt)"

definition bind_err :: "py_error + 'a \<Rightarrow> ('a \<Rightarrow> py_error + 'b) \<Rightarrow> py_error + 'b" where
  "bind_err x f = (case x of Inl e \<Rightarrow> Inl e | Inr v \<Rightarrow> f v)"

text \<open>
  Library functions whose result no property below depends on are parameters:
  \<open>sha1_hexdigest text\<close> is \<open>hashlib.sha1(text.encode("utf-8")).hexdigest()\<close>;
  \<open>strptime_iso raw\<close> is \<open>strptime(raw, "%m/%d/%Y %I:%M:%S %p")\<close> put in UTC and
  printed by \<open>isoformat()\<close>, or \<open>None\<close> where \<open>strptime\<close> raises \<open>ValueError\<close>;
  \<open>repr v\<close> is \<open>str(v)\<close> for a value \<open>v\<close> that is not a string.
\<close>

record pylib =
  sha1_hexdigest :: "string \<Rightarrow> string"
  strptime_iso :: "string \<Rightarrow> string option"
  repr :: "pyval \<Rightarrow> string"

text \<open>\<open>str(v)\<close>\<close>

definition py_str :: "pylib \<Rightarrow> pyval \<Rightarrow> string" where
  "py_str lib v = (case v of PStr s \<Rightarrow> s | _ \<Rightarrow> repr lib v)"

text \<open>\<open>bool(v)\<close>\<close>

fun py_bool :: "pyval \<Rightarrow> bool" where
  "py_bool PNone = False"
| "py_bool (PBool b) = b"
| "py_bool (PInt n) = (n \<noteq> 0)"
| "py_bool (PFloat f) = (f \<noteq> Finite 0)"
| "py_bool (PStr s) = (s \<noteq> [])"
| "py_bool (PList xs) = (xs \<noteq> [])"
| "py_bool (PDict kvs) = (kvs \<noteq> [])"

text \<open>
  \<open>int(text)\<close>: surrounding whitespace is dropped, then an optional sign, then decimal
  digits, where single underscores may stand between digits. The flag of \<open>digits_ok\<close> is
  "the previous character is a digit".
\<close>

fun digits_ok :: "bool \<Rightarrow> string \<Rightarrow> bool" where
  "digits_ok prev [] = prev"
| "digits_ok prev (c # cs) =
     (if is_digit c then digits_ok True cs
      else if c = CHR ''_'' \<and> prev then digits_ok False cs
      else False)"

definition int_of_str :: "string \<Rightarrow> py_error + int" where
  "int_of_str s =
     (let t = str_strip s;
          neg = (t \<noteq> [] \<and> hd t = CHR ''-'');
          body = (if t \<noteq> [] \<and> (hd t = CHR ''-'' \<or> hd t = CHR ''+'') then tl t else t)
      in if digits_ok False body
         then Inr ((if neg then - 1 else 1) * int_of_digits (filter is_digit body))
         else Inl ValueError)"

text \<open>\<open>int(v)\<close>: a float is truncated towards zero.\<close>

fun py_int :: "pyval \<Rightarrow> py_error + int" where
  "py_int PNone = Inl TypeError"
| "py_int (PBool b) = Inr (if b then 1 else 0)"
| "py_int (PInt n) = Inr n"
| "py_int (PFloat (Finite r)) = Inr (if 0 \<le> r then \<lfloor>r\<rfloor> else \<lceil>r\<rceil>)"
| "py_int (PFloat NaN) = Inl ValueError"
| "py_int (PFloat PosInf) = Inl OverflowError"
| "py_int (PFloat NegInf) = Inl OverflowError"
| "py_int (PStr s) = int_of_str s"
| "py_int (PList xs) = Inl TypeError"
| "py_int (PDict kvs) = Inl TypeError"

section \<open>The location resolver\<close>

text \<open>\<open>LOCATION_HINTS\<close> in declaration order; each entry is the name with (lat, lon).\<close>

definition LOCATION_HINTS :: "(string \<times> rat \<times> rat) list" where
  "LOCATION_HINTS =
     [(''morgantown'', 39.6295, - 79.9559),
      (''star city'', 39.6579, - 79.9862),
      (''fairmont'', 39.4851, - 80.1426),
      (''white hall'', 39.4443, - 80.1723),
      (''bridgeport'', 39.2865, - 80.2562),
      (''clarksburg'', 39.2806, - 80.3445),
      (''weston'', 39.0384, - 80.4673),
      (''stonewood'', 39.2462, - 80.3009),
      (''lost creek'', 39.1615, - 80.3731),
      (''monongalia county'', 39.6525, - 80.0041),
      (''marion county'', 39.4568, - 80.1542),
      (''harrison county'', 39.3032, - 80.3781)]"

text \<open>The tuple that the loop of \<open>infer_location\<close> runs over.\<close>

definition county_names :: "string list" where
  "county_names = [''monongalia county'', ''marion county'', ''harrison county'']"

text \<open>
  \<^verbatim>\<open>rf"\b{re.escape(place)}\b"\<close>: \<open>re.escape\<close> turns every character of the name into
  a literal.
\<close>

definition county_pattern :: "string \<Rightarrow> regex" where
  "county_pattern place = Seq WordB (Seq (Lit place) WordB)"

definition county_matches :: "string \<Rightarrow> (nat \<times> string) list" where
  "county_matches lowered =
     concat (map (\<lambda>place. case re_search (county_pattern place) lowered of
                             Some m \<Rightarrow> [(fst m, place)]
                           | None \<Rightarrow> [])
                 county_names)"

text \<open>
  \<open>sorted(county_matches, key=lambda x: x[0])[0]\<close> is the head of the stable sort; it is
  read only where \<open>county_matches\<close> is not empty. \<open>LOCATION_HINTS[best]\<close> raises
  \<open>KeyError\<close> on a missing key.
\<close>

definition infer_location :: "string \<Rightarrow> py_error + (string \<times> pyval \<times> pyval)" where
  "infer_location text =
     (let lowered = str_lower text;
          cm = county_matches lowered
      in if cm \<noteq> [] then
           (let best = snd (hd (sort_key fst cm))
            in case map_of LOCATION_HINTS best of
                 None \<Rightarrow> Inl KeyError
               | Some (la, lo) \<Rightarrow> Inr (str_title best, PFloat (Finite la), PFloat (Finite lo)))
         else
           (case find (\<lambda>(place, coords). sublist place lowered) LOCATION_HINTS of
              Some (place, la, lo) \<Rightarrow> Inr (str_title place, PFloat (Finite la), PFloat (Finite lo))
            | None \<Rightarrow> Inr (''Unspecified stretch'', PNone, PNone)))"

section \<open>Incidents\<close>

text \<open>
  The dataclass \<open>Incident\<close>. Its fields \<open>id\<close> and \<open>notes\<close> are \<open>inc_id\<close> and \<open>inc_notes\<close> here. The annotations of
  \<open>lat\<close>, \<open>lon\<close> and \<open>verified_fatalities\<close> are not enforced at run time, and a manual
  record stores what the payload holds there, so these fields are Python values.
\<close>

record Incident =
  inc_id :: string
  title :: string
  url :: string
  source :: string
  published_at :: string
  summary :: string
  location_text :: string
  lat :: pyval
  lon :: pyval
  construction_related :: bool
  suspected_fatalities :: int
  source_type :: string
  verification_status :: string
  verified_fatalities :: pyval
  inc_notes :: string

definition CONSTRUCTION_TERMS :: "string list" where
  "CONSTRUCTION_TERMS =
     [''construction'', ''work zone'', ''bridge work'', ''bridge deck repairs'', ''paving'',
      ''lane closure'', ''detour'', ''road work'', ''maintenance'']"

definition NORTH_CENTRAL_COUNTIES :: "string set" where
  "NORTH_CENTRAL_COUNTIES = {''monongalia county'', ''marion county'', ''harrison county''}"

definition WV511_DELAY_URL :: string where
  "WV511_DELAY_URL = ''https://www.wv511.org/TravelConditions/TravelDelay.aspx''"

definition incident_id :: "pylib \<Rightarrow> string \<Rightarrow> string \<Rightarrow> string" where
  "incident_id lib u t = take 12 (sha1_hexdigest lib (u @ ''|'' @ t))"

definition parse_wv511_date :: "pylib \<Rightarrow> string \<Rightarrow> string" where
  "parse_wv511_date lib raw = (case strptime_iso lib (str_strip raw) of None \<Rightarrow> [] | Some d \<Rightarrow> d)"

definition text_to_bool :: "string \<Rightarrow> bool" where
  "text_to_bool v = (str_lower (str_strip v) \<in> {''1'', ''true'', ''yes'', ''y''})"

section \<open>The delay-listing parser\<close>

text \<open>\<open>text.replace(old, new, 1)\<close>\<close>

fun replace_first :: "string \<Rightarrow> string \<Rightarrow> string \<Rightarrow> string" where
  "replace_first old new [] = (if old = [] then new else [])"
| "replace_first old new (c # cs) =
     (if prefix old (c # cs) then new @ drop (length old) (c # cs)
      else c # replace_first old new cs)"

text \<open>
  \<open>probe.split(":", 1)[1].strip()\<close>: the text after the first colon. It is evaluated only
  on a line that starts with one of the four labels, each of which ends in a colon, so the
  element at index 1 exists.
\<close>

definition field_value :: "string \<Rightarrow> string" where
  "field_value probe = str_strip (drop 1 (dropWhile (\<lambda>c. c \<noteq> CHR '':'') probe))"

text \<open>
  The inner \<open>while j < len(lines)\<close> loop. The state is the four collected fields
  (\<open>last_updated\<close>, \<open>county\<close>, \<open>description\<close>, \<open>notes\<close>); the result is the fields and
  the index \<open>j\<close> at which the loop stopped.
\<close>

function scan_block ::
  "string list \<Rightarrow> nat \<Rightarrow> string \<times> string \<times> string \<times> string
     \<Rightarrow> (string \<times> string \<times> string \<times> string) \<times> nat" where
  "scan_block lines j (last_updated, county, description, nts) =
     (if j < length lines then
        (let probe = lines ! j in
         if prefix ''Last Updated:'' probe then
           scan_block lines (j + 1) (field_value probe, county, description, nts)
         else if prefix ''County:'' probe then
           scan_block lines (j + 1) (last_updated, field_value probe, description, nts)
         else if prefix ''Description:'' probe then
           scan_block lines (j + 1) (last_updated, county, field_value probe, nts)
         else if prefix ''Comments:'' probe then
           scan_block lines (j + 1) (last_updated, county, description, field_value probe)
         else if prefix ''I-'' probe \<and> \<not> prefix ''I-79'' probe then
           ((last_updated, county, description, nts), j)
         else if prefix ''I-79'' probe then
           ((last_updated, county, description, nts), j)
         else scan_block lines (j + 1) (last_updated, county, description, nts))
      else ((last_updated, county, description, nts), j))"
  by pat_completeness auto
termination
  by (relation "measure (\<lambda>(lines, j, fields). length lines - j)") auto

text \<open>
  The \<open>Incident(...)\<close> that the parser appends for an accepted block, from the event
  title, the collected fields, \<open>blob\<close>, the result of \<open>infer_location\<close> and the result
  of \<open>extract_fatalities\<close>.
\<close>

definition wv511_incident ::
  "pylib \<Rightarrow> string \<Rightarrow> string \<times> string \<times> string \<times> string \<Rightarrow> string
     \<Rightarrow> string \<times> pyval \<times> pyval \<Rightarrow> int \<Rightarrow> Incident" where
  "wv511_incident lib event_title flds blob located fatalities =
     (case (flds, located) of ((last_updated, county, description, nts), (loc, la, lo)) \<Rightarrow>
        (let constr = (\<exists>term \<in> set CONSTRUCTION_TERMS. sublist term (str_lower blob));
             ttl = str_strip (''I-79 '' @ event_title);
             pseudo_url = WV511_DELAY_URL @ ''#i79-'' @ take 10 (sha1_hexdigest lib blob)
         in \<lparr>inc_id = incident_id lib pseudo_url ttl,
              title = ttl,
              url = WV511_DELAY_URL,
              source = ''wv511.org'',
              published_at = parse_wv511_date lib last_updated,
              summary = description,
              location_text = (if county \<noteq> [] then county else loc),
              lat = la,
              lon = lo,
              construction_related = constr,
              suspected_fatalities = fatalities,
              source_type = ''official_wv511'',
              verification_status = ''official'',
              verified_fatalities = PNone,
              inc_notes = nts\<rparr>))"

text \<open>
  One pass through the body of the outer \<open>while i < len(lines)\<close> loop, for \<open>i\<close> in range:
  the next value of \<open>i\<close> and the list \<open>incidents\<close> after the pass, or the exception that
  \<open>infer_location\<close> or \<open>extract_fatalities\<close> raised.
\<close>

definition block_step ::
  "pylib \<Rightarrow> string list \<Rightarrow> nat \<Rightarrow> Incident list \<Rightarrow> py_error + (nat \<times> Incident list)" where
  "block_step lib lines i incidents =
     (let line = lines ! i in
      if \<not> prefix ''I-79'' line then Inr (i + 1, incidents)
      else
        (let stripped = str_strip (replace_first ''I-79'' [] line);
             event_title = (if stripped \<noteq> [] then stripped else ''Traffic Event'');
             (flds, j) = scan_block lines (i + 1) ([], [], [], []);
             (last_updated, county, description, nts) = flds;
             county_lower = str_lower county
         in if county_lower \<notin> NORTH_CENTRAL_COUNTIES then Inr (max (i + 1) j, incidents)
            else
              (let blob = str_strip (''I-79 '' @ event_title @ '' '' @ description @ '' '' @ nts)
               in if description \<noteq> [] \<and> \<not> sublist ''i-79'' (str_lower description)
                  then Inr (max (i + 1) j, incidents)
                  else
                    bind_err (infer_location (county @ '' '' @ blob)) (\<lambda>located.
                    bind_err (extract_fatalities blob) (\<lambda>fatalities.
                      Inr (max (i + 1) j,
                           incidents @
                           [wv511_incident lib event_title flds blob located fatalities]))))))"

text \<open>
  The outer loop. Nothing is assumed about its termination: the result is \<open>None\<close> where
  the loop runs forever, and otherwise the returned list or the exception raised.
\<close>

partial_function (option) parse_loop ::
  "pylib \<Rightarrow> string list \<Rightarrow> nat \<Rightarrow> Incident list \<Rightarrow> (py_error + Incident list) option" where
  "parse_loop lib lines i incidents =
     (if i < length lines then
        (case block_step lib lines i incidents of
           Inl e \<Rightarrow> Some (Inl e)
         | Inr (i', incidents') \<Rightarrow> parse_loop lib lines i' incidents')
      else Some (Inr incidents))"

declare parse_loop.simps [code]

definition parse_wv511_i79_incidents ::
  "pylib \<Rightarrow> string list \<Rightarrow> (py_error + Incident list) option" where
  "parse_wv511_i79_incidents lib lines = parse_loop lib lines 0 []"

section \<open>Manual overrides\<close>

text \<open>
  \<open>by_id\<close> is a dictionary from id to incident, kept in insertion order:
  \<open>by_id.get(key)\<close> is \<^const>\<open>map_of\<close> and \<open>by_id[key] = v\<close> is \<^const>\<open>AList.update\<close>,
  which replaces the value of a key in place and appends a key that is new. The incident
  objects are mutated in place by a patch; the returned list is read from \<open>by_id\<close> alone,
  where each object sits under one key, so the patched record is written back under that key.
\<close>

text \<open>\<open>{incident.id: incident for incident in incidents}\<close>\<close>

definition index_by_id :: "Incident list \<Rightarrow> (string \<times> Incident) list" where
  "index_by_id incidents = foldl (\<lambda>d inc. AList.update (inc_id inc) inc d) [] incidents"

text \<open>The five \<open>if key in patch\<close> statements applied to one incident, in their order.\<close>

definition apply_patch :: "pylib \<Rightarrow> Incident \<Rightarrow> (string \<times> pyval) list \<Rightarrow> py_error + Incident" where
  "apply_patch lib incident patch =
     (let inc1 = (case map_of patch ''construction_related'' of
                    Some v \<Rightarrow> incident\<lparr>construction_related := py_bool v\<rparr>
                  | None \<Rightarrow> incident)
      in bind_err (case map_of patch ''suspected_fatalities'' of
                     Some v \<Rightarrow> bind_err (py_int v) (\<lambda>n. Inr (inc1\<lparr>suspected_fatalities := n\<rparr>))
                   | None \<Rightarrow> Inr inc1) (\<lambda>inc2.
         bind_err (case map_of patch ''verified_fatalities'' of
                     Some v \<Rightarrow>
                       (if v \<noteq> PNone
                        then bind_err (py_int v) (\<lambda>n. Inr (inc2\<lparr>verified_fatalities := PInt n\<rparr>))
                        else Inr (inc2\<lparr>verified_fatalities := PNone\<rparr>))
                   | None \<Rightarrow> Inr inc2) (\<lambda>inc3.
         (let inc4 = (case map_of patch ''verification_status'' of
                        Some v \<Rightarrow> inc3\<lparr>verification_status := py_str lib v\<rparr>
                      | None \<Rightarrow> inc3);
              inc5 = (case map_of patch ''notes'' of
                        Some v \<Rightarrow> inc4\<lparr>inc_notes := py_str lib v\<rparr>
                      | None \<Rightarrow> inc4)
          in Inr inc5))))"

text \<open>The loop over \<open>incident_overrides.items()\<close>.\<close>

fun apply_overrides ::
  "pylib \<Rightarrow> (string \<times> pyval) list \<Rightarrow> (string \<times> Incident) list
     \<Rightarrow> py_error + (string \<times> Incident) list" where
  "apply_overrides lib [] by_id = Inr by_id"
| "apply_overrides lib ((key, patch) # rest) by_id =
     (case map_of by_id key of
        None \<Rightarrow> apply_overrides lib rest by_id
      | Some incident \<Rightarrow>
          (case patch of
             PDict p \<Rightarrow>
               bind_err (apply_patch lib incident p) (\<lambda>inc'.
                 apply_overrides lib rest (AList.update key inc' by_id))
           | _ \<Rightarrow> apply_overrides lib rest by_id))"

text \<open>
  The incident built from one dictionary of \<open>manual_incidents\<close>; \<open>None\<close> where the record
  is skipped for its empty title.
\<close>

definition manual_incident :: "pylib \<Rightarrow> (string \<times> pyval) list \<Rightarrow> py_error + Incident option" where
  "manual_incident lib raw =
     (let ttl = str_strip (py_str lib (dict_get raw ''title'' (PStr [])));
          stripped_url = str_strip (py_str lib (dict_get raw ''url'' (PStr ''manual://local'')));
          u = (if stripped_url \<noteq> [] then stripped_url else ''manual://local'')
      in if ttl = [] then Inr None
         else
           (let text_blob = ttl @ '' '' @ py_str lib (dict_get raw ''summary'' (PStr []))
            in bind_err (infer_location text_blob) (\<lambda>(loc, la, lo).
               bind_err (py_int (dict_get raw ''suspected_fatalities'' (PInt 0))) (\<lambda>suspected.
                 Inr (Some
                   \<lparr>inc_id = incident_id lib u ttl,
                     title = ttl,
                     url = u,
                     source = py_str lib (dict_get raw ''source'' (PStr ''manual'')),
                     published_at = py_str lib (dict_get raw ''published_at'' (PStr [])),
                     summary = py_str lib (dict_get raw ''summary'' (PStr [])),
                     location_text = py_str lib (dict_get raw ''location_text'' (PStr loc)),
                     lat = dict_get raw ''lat'' la,
                     lon = dict_get raw ''lon'' lo,
                     construction_related =
                       text_to_bool (py_str lib (dict_get raw ''construction_related'' (PStr ''false''))),
                     suspected_fatalities = suspected,
                     source_type = py_str lib (dict_get raw ''source_type'' (PStr ''manual'')),
                     verification_status =
                       py_str lib (dict_get raw ''verification_status'' (PStr ''verified'')),
                     verified_fatalities = dict_get raw ''verified_fatalities'' PNone,
                     inc_notes = py_str lib (dict_get raw ''notes'' (PStr []))\<rparr>)))))"

text \<open>The loop over \<open>manual_incidents\<close>.\<close>

fun add_manual ::
  "pylib \<Rightarrow> pyval list \<Rightarrow> (string \<times> Incident) list \<Rightarrow> py_error + (string \<times> Incident) list" where
  "add_manual lib [] by_id = Inr by_id"
| "add_manual lib (raw # rest) by_id =
     (case raw of
        PDict r \<Rightarrow>
          bind_err (manual_incident lib r) (\<lambda>made.
            case made of
              None \<Rightarrow> add_manual lib rest by_id
            | Some incident \<Rightarrow> add_manual lib rest (AList.update (inc_id incident) incident by_id))
      | _ \<Rightarrow> add_manual lib rest by_id)"

text \<open>
  \<open>payload.get("incident_overrides", {}).items()\<close>: only a dictionary has \<open>items\<close>.
\<close>

definition override_items :: "(string \<times> pyval) list \<Rightarrow> py_error + (string \<times> pyval) list" where
  "override_items payload =
     (case dict_get payload ''incident_overrides'' (PDict []) of
        PDict kvs \<Rightarrow> Inr kvs
      | _ \<Rightarrow> Inl AttributeError)"

text \<open>
  What \<open>for raw in v\<close> runs over: the elements of a list, the keys of a dictionary, the
  characters of a string; another value is not iterable.
\<close>

definition py_iter :: "pyval \<Rightarrow> py_error + pyval list" where
  "py_iter v =
     (case v of
        PList xs \<Rightarrow> Inr xs
      | PDict kvs \<Rightarrow> Inr (map (\<lambda>kv. PStr (fst kv)) kvs)
      | PStr s \<Rightarrow> Inr (map (\<lambda>c. PStr [c]) s)
      | _ \<Rightarrow> Inl TypeError)"

definition apply_manual_overrides ::
  "pylib \<Rightarrow> Incident list \<Rightarrow> (string \<times> pyval) list \<Rightarrow> py_error + Incident list" where
  "apply_manual_overrides lib incidents payload =
     bind_err (override_items payload) (\<lambda>items.
     bind_err (apply_overrides lib items (index_by_id incidents)) (\<lambda>by_id1.
     bind_err (py_iter (dict_get payload ''manual_incidents'' (PList []))) (\<lambda>raws.
     bind_err (add_manual lib raws by_id1) (\<lambda>by_id2.
       Inr (map snd by_id2)))))"

section \<open>Merging the sources\<close>

text \<open>
  The three loops of \<open>build_dataset\<close> that consult \<open>seen\<close>: a candidate whose id is in
  \<open>seen\<close> is passed over, another one is appended and its id is added to \<open>seen\<close>.
\<close>

fun add_unseen ::
  "Incident list \<Rightarrow> Incident list \<times> string set \<Rightarrow> Incident list \<times> string set" where
  "add_unseen [] st = st"
| "add_unseen (inc # rest) (incidents, seen) =
     (if inc_id inc \<in> seen then add_unseen rest (incidents, seen)
      else add_unseen rest (incidents @ [inc], insert (inc_id inc) seen))"

text \<open>
  \<open>build_dataset\<close> up to the call of \<open>apply_manual_overrides\<close>, on the candidates of the
  four sources in the order of the code: \<open>feed\<close> holds the incident of every feed item
  that is relevant and has a link, \<open>wv511\<close> is the result of \<open>fetch_wv511_incidents()\<close>,
  \<open>wdtv\<close> the result of \<open>fetch_wdtv_historical_incidents()\<close>, and \<open>wboy\<close> holds the
  incidents that \<open>to_wboy_incident\<close> returns for the archived posts. The sort and the
  summary that follow leave the set of records as it is.
\<close>

definition build_dataset_incidents ::
  "pylib \<Rightarrow> Incident list \<Rightarrow> Incident list \<Rightarrow> Incident list \<Rightarrow> Incident list
     \<Rightarrow> (string \<times> pyval) list \<Rightarrow> py_error + Incident list" where
  "build_dataset_incidents lib feed wv511 wdtv wboy payload =
     (let (incidents1, seen1) = add_unseen feed ([], {});
          incidents2 = incidents1 @ wv511;
          (incidents3, seen3) = add_unseen wdtv (incidents2, seen1);
          (incidents4, seen4) = add_unseen wboy (incidents3, seen3)
      in apply_manual_overrides lib incidents4 payload)"

section \<open>Auxiliary notions for the properties\<close>

text \<open>A pattern without a capturing group leaves the span of group 1 as it is.\<close>

fun has_group :: "regex \<Rightarrow> bool" where
  "has_group (Lit w) = False"
| "has_group (Plus cl) = False"
| "has_group (Seq a b) = (has_group a \<or> has_group b)"
| "has_group (Alt a b) = (has_group a \<or> has_group b)"
| "has_group (Opt a) = has_group a"
| "has_group (Group a) = True"
| "has_group WordB = False"

text \<open>The test of the first \<open>if\<close> of \<open>extract_fatalities\<close>, on the lower-cased text.\<close>

definition has_fatal_clue :: "string \<Rightarrow> bool" where
  "has_fatal_clue lowered = (\<exists>clue \<in> set fatal_clues. sublist clue lowered)"

text \<open>
  In the spec's words, a word-boundary match of the name \<open>w\<close> at position \<open>i\<close> of \<open>s\<close>:
  \<open>w\<close> occurs at \<open>i\<close>, no word character stands right before the occurrence, and none
  stands right after it.
\<close>

definition whole_word_at :: "string \<Rightarrow> string \<Rightarrow> nat \<Rightarrow> bool" where
  "whole_word_at w s i =
     (prefix w (drop i s) \<and>
      (i = 0 \<or> \<not> is_word (s ! (i - 1))) \<and>
      (length s \<le> i + length w \<or> \<not> is_word (s ! (i + length w))))"

text \<open>
  For the block that starts at line \<open>i\<close>: the County field that the inner loop collects,
  and the index at which the inner loop stops.
\<close>

definition block_county :: "string list \<Rightarrow> nat \<Rightarrow> string" where
  "block_county lines i = fst (snd (fst (scan_block lines (i + 1) ([], [], [], []))))"

definition block_end :: "string list \<Rightarrow> nat \<Rightarrow> nat" where
  "block_end lines i = snd (scan_block lines (i + 1) ([], [], [], []))"

text \<open>\<open>lat\<close> and \<open>lon\<close> are both null or both set.\<close>

definition coords_paired :: "Incident \<Rightarrow> bool" where
  "coords_paired inc = ((lat inc = PNone) = (lon inc = PNone))"

text \<open>
  The incident carries the County field of a block of the input whose county is in scope,
  and its coordinates are paired.
\<close>

definition from_block :: "string list \<Rightarrow> Incident \<Rightarrow> bool" where
  "from_block lines inc =
     (\<exists>k < length lines. prefix ''I-79'' (lines ! k) \<and>
        location_text inc = block_county lines k \<and>
        str_lower (block_county lines k) \<in> NORTH_CENTRAL_COUNTIES \<and>
        coords_paired inc)"

text \<open>
  The two incidents agree on every field that no patch key writes: \<open>id\<close>, \<open>title\<close>,
  \<open>url\<close>, \<open>source\<close>, \<open>published_at\<close>, \<open>summary\<close>, \<open>location_text\<close>, \<open>lat\<close>,
  \<open>lon\<close> and \<open>source_type\<close>.
\<close>

definition frame_eq :: "Incident \<Rightarrow> Incident \<Rightarrow> bool" where
  "frame_eq a b =
     (inc_id a = inc_id b \<and> title a = title b \<and> url a = url b \<and> source a = source b \<and>
      published_at a = published_at b \<and> summary a = summary b \<and>
      location_text a = location_text b \<and> lat a = lat b \<and> lon a = lon b \<and>
      source_type a = source_type b)"

text \<open>
  The invariant of \<open>by_id\<close>: keys are distinct and every incident sits under its own id.
  \<open>all_values P\<close> says that every incident of the dictionary satisfies \<open>P\<close>.
\<close>

definition keyed :: "(string \<times> Incident) list \<Rightarrow> bool" where
  "keyed d = (distinct (map fst d) \<and> (\<forall>kv \<in> set d. inc_id (snd kv) = fst kv))"

definition all_values :: "(Incident \<Rightarrow> bool) \<Rightarrow> (string \<times> Incident) list \<Rightarrow> bool" where
  "all_values P d = (\<forall>kv \<in> set d. P (snd kv))"


text \<open>
  An instance of the library parameters and sample inputs, for evaluating the model on
  examples; the theorems hold for every instance. The instance agrees with the library
  on what the examples ask of it: \<open>sha1_examples\<close> holds the SHA-1 digests of the three
  strings that the examples hash, \<open>strptime\<close> is called on the empty string only, where
  it raises \<open>ValueError\<close>, and \<open>str\<close> is applied to strings only.
\<close>

definition sha1_examples :: "(string \<times> string) list" where
  "sha1_examples =
     [(''I-79 Road Work'', ''9c4eeafc8943585c9d5bb76e53ef821361fda922''),
      (''https://www.wv511.org/TravelConditions/TravelDelay.aspx#i79-9c4eeafc89|I-79 Road Work'',
       ''0414175548c3cdc00ab2fc9363bcd7949cca6cca''),
      (''manual://local|Crash'', ''4c048692b1f978c276f1e198dfdec27417e8a0f8'')]"

definition demo_lib :: pylib where
  "demo_lib =
     \<lparr>sha1_hexdigest = (\<lambda>s. case map_of sha1_examples s of Some h \<Rightarrow> h | None \<Rightarrow> []),
       strptime_iso = (\<lambda>s. None),
       repr = (\<lambda>v. [])\<rparr>"

definition demo_lines :: "string list" where
  "demo_lines =
     [''I-79 Crash'',
      ''County: Kanawha County'',
      ''Description: I-79 crash near Fairmont'',
      ''I-79 Road Work'',
      ''County: Marion County'']"

definition demo_incident :: Incident where
  "demo_incident =
     \<lparr>inc_id = ''0414175548c3'',
       title = ''I-79 Road Work'',
       url = ''https://www.wv511.org/TravelConditions/TravelDelay.aspx'',
       source = ''wv511.org'',
       published_at = [],
       summary = [],
       location_text = ''Marion County'',
       lat = PFloat (Finite 39.4568),
       lon = PFloat (Finite (- 80.1542)),
       construction_related = True,
       suspected_fatalities = 0,
       source_type = ''official_wv511'',
       verification_status = ''official'',
       verified_fatalities = PNone,
       inc_notes = []\<rparr>"

text \<open>
  A patch that clears \<open>verified_fatalities\<close>; a payload with one manual record that gives
  \<open>lat\<close> alone, and the incident built from it; a payload whose manual record gives both
  coordinates; and the incident of a feed item whose link and title are those that the
  parser derives for the second block of \<open>demo_lines\<close>.
\<close>

definition patch_demo :: "(string \<times> pyval) list" where
  "patch_demo = [(''verified_fatalities'', PNone), (''notes'', PStr ''confirmed'')]"


definition manual_demo :: Incident where
  "manual_demo =
     \<lparr>inc_id = ''4c048692b1f9'',
       title = ''Crash'',
       url = ''manual://local'',
       source = ''manual'',
       published_at = [],
       summary = [],
       location_text = ''Unspecified stretch'',
       lat = PFloat (Finite 39.5),
       lon = PNone,
       construction_related = False,
       suspected_fatalities = 0,
       source_type = ''manual'',
       verification_status = ''verified'',
       verified_fatalities = PNone,
       inc_notes = []\<rparr>"


definition feed_demo :: Incident where
  "feed_demo =
     \<lparr>inc_id = ''0414175548c3'',
       title = ''I-79 Road Work'',
       url = ''https://www.wv511.org/TravelConditions/TravelDelay.aspx#i79-9c4eeafc89'',
       source = ''wv511.org'',
       published_at = [],
       summary = ''Crash cleanup'',
       location_text = ''Unspecified stretch'',
       lat = PNone,
       lon = PNone,
       construction_related = True,
       suspected_fatalities = 0,
       source_type = ''news'',
       verification_status = ''unverified'',
       verified_fatalities = PNone,
       inc_notes = []\<rparr>"

section \<open>Properties of the regular expressions\<close>

lemma matches_Seq_iff:
  "(e, c) \<in> set (matches (Seq a b) s p cap) \<longleftrightarrow>
     (\<exists>e1 c1. (e1, c1) \<in> set (matches a s p cap) \<and> (e, c) \<in> set (matches b s e1 c1))"
  by auto

lemma matches_WordB_iff:
  "(e, c) \<in> set (matches WordB s p cap) \<longleftrightarrow> boundary s p \<and> e = p \<and> c = cap"
  by auto

lemma matches_keeps_span:
  "\<not> has_group r \<Longrightarrow> (e, c) \<in> set (matches r s p cap) \<Longrightarrow> c = cap"
proof (induction r arbitrary: p cap e c)
  case (Seq a b)
  from Seq.prems obtain e1 c1 where "(e1, c1) \<in> set (matches a s p cap)"
    "(e, c) \<in> set (matches b s e1 c1)" unfolding matches_Seq_iff by blast
  with Seq.IH Seq.prems(1) show ?case by (metis has_group.simps(3))
qed (auto split: if_splits)

lemma re_search_from_Some:
  "re_search_from r s i n = Some (st, e, c) \<Longrightarrow> (e, c) \<in> set (matches r s st None)"
  by (induction n arbitrary: i) (auto split: list.splits)

lemma re_search_Some:
  "re_search r s = Some (st, e, c) \<Longrightarrow> (e, c) \<in> set (matches r s st None)"
  unfolding re_search_def by (rule re_search_from_Some)

lemma spelled_group_matches:
  assumes "(e, c) \<in> set (matches spelled_group s p cap)"
  shows "\<exists>w \<in> fst ` set SPELLED_NUMBERS. c = Some (p, p + length w) \<and> prefix w (drop p s)"
  using assms unfolding spelled_group_def SPELLED_NUMBERS_def
  by (auto split: if_splits)

lemma group1_prefix:
  "prefix w (drop p s) \<Longrightarrow> group1 s (st, e, Some (p, p + length w)) = w"
  by (auto simp: group1_def substr_def prefix_def)

lemma spelled_number_key:
  "w \<in> fst ` set SPELLED_NUMBERS \<Longrightarrow> \<exists>n. spelled_number w = Inr n \<and> 1 \<le> n \<and> n \<le> 6"
  unfolding spelled_number_def SPELLED_NUMBERS_def by auto

lemma spelled_search_group:
  assumes "re_search (Seq WordB (Seq spelled_group r)) s = Some m" and "\<not> has_group r"
  shows "group1 s m \<in> fst ` set SPELLED_NUMBERS"
proof -
  obtain st e c where m: "m = (st, e, c)" by (cases m) auto
  from assms(1) have "re_search (Seq WordB (Seq spelled_group r)) s = Some (st, e, c)"
    unfolding m .
  from re_search_Some[OF this]
  have "(e, c) \<in> set (matches (Seq WordB (Seq spelled_group r)) s st None)" .
  then obtain e0 c0 where w: "(e0, c0) \<in> set (matches WordB s st None)"
    and "(e, c) \<in> set (matches (Seq spelled_group r) s e0 c0)"
    unfolding matches_Seq_iff[of e c WordB] by (elim exE conjE)
  moreover from w have "e0 = st" "c0 = None" unfolding matches_WordB_iff by simp_all
  ultimately have "(e, c) \<in> set (matches (Seq spelled_group r) s st None)" by simp
  then obtain e1 c1 where g: "(e1, c1) \<in> set (matches spelled_group s st None)"
    and r: "(e, c) \<in> set (matches r s e1 c1)"
    unfolding matches_Seq_iff[of e c spelled_group] by (elim exE conjE)
  from r assms(2) have "c = c1" by (rule matches_keeps_span[rotated])
  moreover from spelled_group_matches[OF g] obtain w where "w \<in> fst ` set SPELLED_NUMBERS"
    "c1 = Some (st, st + length w)" "prefix w (drop st s)"
    by (elim bexE conjE)
  ultimately show ?thesis unfolding m by (simp add: group1_prefix)
qed

lemma spelled_dead_number:
  "re_search spelled_dead s = Some m \<Longrightarrow> \<exists>n. spelled_number (group1 s m) = Inr n \<and> 1 \<le> n \<and> n \<le> 6"
  unfolding spelled_dead_def
  by (rule spelled_number_key, rule spelled_search_group, assumption) simp

lemma spelled_killed_number:
  "re_search spelled_killed s = Some m \<Longrightarrow> \<exists>n. spelled_number (group1 s m) = Inr n \<and> 1 \<le> n \<and> n \<le> 6"
  unfolding spelled_killed_def
  by (rule spelled_number_key, rule spelled_search_group, assumption) simp

lemma numeric_count_range:
  "numeric_count ps s = Some v \<Longrightarrow> 0 < v \<and> v \<le> 10"
  by (induction ps) (auto split: option.splits if_splits simp: Let_def)

section \<open>Properties of the fatality estimator\<close>

lemma extract_fatalities_unfold:
  "extract_fatalities t =
     (if \<not> has_fatal_clue (str_lower t) then Inr 0
      else case numeric_count patterns (str_lower t) of
        Some v \<Rightarrow> Inr v
      | None \<Rightarrow>
          (case re_search spelled_dead (str_lower t) of
             Some m \<Rightarrow> spelled_number (group1 (str_lower t) m)
           | None \<Rightarrow>
               (case re_search spelled_killed (str_lower t) of
                  Some m \<Rightarrow> spelled_number (group1 (str_lower t) m)
                | None \<Rightarrow> Inr 1)))"
  unfolding extract_fatalities_def has_fatal_clue_def Let_def ..

lemma extract_fatalities_no_clue:
  "\<not> has_fatal_clue (str_lower t) \<Longrightarrow> extract_fatalities t = Inr 0"
  by (simp add: extract_fatalities_unfold)

lemma extract_fatalities_clue:
  assumes "has_fatal_clue (str_lower t)"
  shows "\<exists>n. extract_fatalities t = Inr n \<and> 1 \<le> n \<and> n \<le> 10"
proof (cases "numeric_count patterns (str_lower t)")
  case (Some v)
  with assms numeric_count_range[OF Some] show ?thesis
    by (simp add: extract_fatalities_unfold)
next
  case None
  show ?thesis
  proof (cases "re_search spelled_dead (str_lower t)")
    case (Some m)
    from spelled_dead_number[OF Some] obtain n where
      "spelled_number (group1 (str_lower t) m) = Inr n" "1 \<le> n" "n \<le> 6" by (elim exE conjE)
    with assms None Some show ?thesis
      by (simp add: extract_fatalities_unfold)
  next
    case nd: None
    show ?thesis
    proof (cases "re_search spelled_killed (str_lower t)")
      case (Some m)
      from spelled_killed_number[OF Some] obtain n where
        "spelled_number (group1 (str_lower t) m) = Inr n" "1 \<le> n" "n \<le> 6" by (elim exE conjE)
      with assms None nd Some show ?thesis
        by (simp add: extract_fatalities_unfold)
    next
      case nk: None
      with assms None nd show ?thesis
        by (simp add: extract_fatalities_unfold)
    qed
  qed
qed

lemma extract_fatalities_range:
  "\<exists>n. extract_fatalities t = Inr n \<and> 0 \<le> n \<and> n \<le> 10"
proof (cases "has_fatal_clue (str_lower t)")
  case True
  from extract_fatalities_clue[OF True] obtain n where
    "extract_fatalities t = Inr n" "1 \<le> n" "n \<le> 10" by (elim exE conjE)
  then show ?thesis by simp
next
  case False
  then show ?thesis by (simp add: extract_fatalities_no_clue)
qed

lemma extract_fatalities_total: "\<exists>n. extract_fatalities t = Inr n"
  using extract_fatalities_range[of t] by blast







section \<open>Properties of the location resolver\<close>

lemma hd_sort_key_least:
  assumes "xs \<noteq> []"
  shows "hd (sort_key f xs) \<in> set xs \<and> (\<forall>y \<in> set xs. f (hd (sort_key f xs)) \<le> f y)"
proof -
  obtain z zs where ys: "sort_key f xs = z # zs"
    using assms by (cases "sort_key f xs") (auto dest: arg_cong[where f = length])
  have "sorted (map f (z # zs))" using sorted_sort_key[of f xs] ys by simp
  then have le: "\<forall>y \<in> set (z # zs). f z \<le> f y" by auto
  have "set (z # zs) = set xs" using set_sort[of f xs] ys by simp
  with le ys show ?thesis by auto
qed

lemma re_search_from_None_iff:
  "re_search_from r s i n = None \<longleftrightarrow> (\<forall>k. i \<le> k \<and> k < i + n \<longrightarrow> matches r s k None = [])"
proof (induction n arbitrary: i)
  case 0
  show ?case by auto
next
  case (Suc n)
  show ?case
  proof (cases "matches r s i None")
    case Nil
    have "(\<forall>k. i \<le> k \<and> k < i + Suc n \<longrightarrow> matches r s k None = []) \<longleftrightarrow>
          (\<forall>k. Suc i \<le> k \<and> k < Suc i + n \<longrightarrow> matches r s k None = [])"
    proof (intro iffI allI impI)
      fix k assume a: "\<forall>k. i \<le> k \<and> k < i + Suc n \<longrightarrow> matches r s k None = []"
        and "Suc i \<le> k \<and> k < Suc i + n"
      then have "i \<le> k \<and> k < i + Suc n" by simp
      with a show "matches r s k None = []" by blast
    next
      fix k assume a: "\<forall>k. Suc i \<le> k \<and> k < Suc i + n \<longrightarrow> matches r s k None = []"
        and k: "i \<le> k \<and> k < i + Suc n"
      show "matches r s k None = []"
      proof (cases "k = i")
        case True
        with Nil show ?thesis by simp
      next
        case False
        with k have "Suc i \<le> k \<and> k < Suc i + n" by simp
        with a show ?thesis by blast
      qed
    qed
    with Nil Suc.IH[of "Suc i"] show ?thesis by simp
  next
    case (Cons a as)
    have "i \<le> i \<and> i < i + Suc n" by simp
    with Cons have "\<not> (\<forall>k. i \<le> k \<and> k < i + Suc n \<longrightarrow> matches r s k None = [])"
      by (metis list.distinct(1))
    with Cons show ?thesis by (cases a) simp
  qed
qed

lemma re_search_from_least:
  "re_search_from r s i n = Some (st, e, c) \<Longrightarrow>
     i \<le> st \<and> st < i + n \<and> matches r s st None \<noteq> [] \<and>
     (\<forall>k. i \<le> k \<and> k < st \<longrightarrow> matches r s k None = [])"
proof (induction n arbitrary: i)
  case 0
  then show ?case by simp
next
  case (Suc n)
  show ?case
  proof (cases "matches r s i None")
    case Nil
    with Suc.prems have "re_search_from r s (Suc i) n = Some (st, e, c)" by simp
    from Suc.IH[OF this]
    have ih: "Suc i \<le> st" "st < Suc i + n" "matches r s st None \<noteq> []"
      "\<forall>k. Suc i \<le> k \<and> k < st \<longrightarrow> matches r s k None = []" by simp_all
    have "matches r s k None = []" if k: "i \<le> k \<and> k < st" for k
    proof (cases "k = i")
      case True
      with Nil show ?thesis by simp
    next
      case False
      with k have "Suc i \<le> k \<and> k < st" by simp
      with ih(4) show ?thesis by blast
    qed
    with ih(1-3) show ?thesis by simp
  next
    case (Cons a as)
    with Suc.prems show ?thesis by (cases a) auto
  qed
qed

lemma county_pattern_matches:
  "matches (county_pattern w) s i None =
     (if boundary s i \<and> prefix w (drop i s) \<and> boundary s (i + length w)
      then [(i + length w, None)] else [])"
  by (simp add: county_pattern_def)

lemma prefix_drop_facts:
  assumes "prefix w (drop i s)" and "w \<noteq> []"
  shows "i + length w \<le> length s" and "s ! i = hd w" and "s ! (i + length w - 1) = last w"
proof -
  from assms(1) obtain t where d: "drop i s = w @ t" by (auto simp: prefix_def)
  then have "length (drop i s) = length w + length t" by simp
  with assms(2) show len: "i + length w \<le> length s" by (cases w) auto
  have nth: "s ! (i + k) = w ! k" if k: "k < length w" for k
  proof -
    from k len have "i + k < length s" by simp
    then have "s ! (i + k) = drop i s ! k" by simp
    also have "\<dots> = w ! k" using d k by (simp add: nth_append)
    finally show "s ! (i + k) = w ! k" .
  qed
  from assms(2) have "0 < length w" by simp
  from nth[OF this] show "s ! i = hd w" using assms(2) by (simp add: hd_conv_nth)
  from assms(2) have "length w - 1 < length w" by simp
  from nth[OF this] have "s ! (i + (length w - 1)) = last w"
    using assms(2) by (simp add: last_conv_nth)
  moreover have "i + (length w - 1) = i + length w - 1" using assms(2) by (cases w) auto
  ultimately show "s ! (i + length w - 1) = last w" by simp
qed

lemma county_pattern_whole_word:
  assumes "w \<noteq> []" and "is_word (hd w)" and "is_word (last w)"
  shows "matches (county_pattern w) s i None \<noteq> [] \<longleftrightarrow> whole_word_at w s i"
proof (cases "prefix w (drop i s)")
  case False
  then show ?thesis by (simp add: county_pattern_matches whole_word_at_def)
next
  case True
  note f = prefix_drop_facts[OF True assms(1)]
  from assms(1) f(1) have lt: "i < length s" by (cases w) auto
  have w1: "word_at s i" using lt f(2) assms(2) by (simp add: word_at_def)
  have w2: "word_at s (i + length w - 1)"
    using f(1) f(3) assms(1,3) by (cases w) (auto simp: word_at_def)
  have b1: "boundary s i \<longleftrightarrow> (i = 0 \<or> \<not> is_word (s ! (i - 1)))"
    using w1 lt by (auto simp: boundary_def word_at_def)
  have pos: "0 < i + length w" using assms(1) by simp
  have b2: "boundary s (i + length w) \<longleftrightarrow>
              (length s \<le> i + length w \<or> \<not> is_word (s ! (i + length w)))"
    using w2 pos by (auto simp: boundary_def word_at_def[of s "i + length w"])
  show ?thesis using True b1 b2 by (auto simp: county_pattern_matches whole_word_at_def)
qed

lemma county_names_cases:
  "c \<in> set county_names \<Longrightarrow>
     c = ''monongalia county'' \<or> c = ''marion county'' \<or> c = ''harrison county''"
  by (simp add: county_names_def)

lemma county_names_shape:
  assumes "c \<in> set county_names"
  shows "c \<noteq> [] \<and> is_word (hd c) \<and> is_word (last c)"
proof -
  have "is_word (CHR ''m'')" "is_word (CHR ''h'')" "is_word (CHR ''y'')" by code_simp+
  with county_names_cases[OF assms] show ?thesis by auto
qed

lemma county_hint:
  assumes "c \<in> set county_names"
  shows "\<exists>la lo. map_of LOCATION_HINTS c = Some (la, lo)"
proof -
  have "map_of LOCATION_HINTS ''monongalia county'' \<noteq> None"
       "map_of LOCATION_HINTS ''marion county'' \<noteq> None"
       "map_of LOCATION_HINTS ''harrison county'' \<noteq> None" by code_simp+
  with county_names_cases[OF assms] show ?thesis by auto
qed
lemma whole_word_sublist: "whole_word_at w s i \<Longrightarrow> sublist w s"
proof -
  assume "whole_word_at w s i"
  then obtain t where "drop i s = w @ t" by (auto simp: whole_word_at_def prefix_def)
  then have "s = take i s @ w @ t" by (metis append_take_drop_id)
  then show "sublist w s" unfolding sublist_def by blast
qed

lemma county_search_found:
  assumes c: "c \<in> set county_names" and "re_search (county_pattern c) s = Some (p, e, cap)"
  shows "whole_word_at c s p \<and> (\<forall>q. whole_word_at c s q \<longrightarrow> p \<le> q)"
proof -
  note sh = county_names_shape[OF c]
  from assms(2) have "re_search_from (county_pattern c) s 0 (Suc (length s)) = Some (p, e, cap)"
    by (simp only: re_search_def)
  from re_search_from_least[OF this]
  have m: "matches (county_pattern c) s p None \<noteq> []"
    and least: "\<forall>k. k < p \<longrightarrow> matches (county_pattern c) s k None = []" by auto
  from m sh have ww: "whole_word_at c s p" by (simp add: county_pattern_whole_word)
  have "\<forall>q. whole_word_at c s q \<longrightarrow> p \<le> q"
  proof (intro allI impI)
    fix q assume "whole_word_at c s q"
    with sh have "matches (county_pattern c) s q None \<noteq> []" by (simp add: county_pattern_whole_word)
    with least show "p \<le> q" by (meson not_le)
  qed
  with ww show ?thesis by simp
qed

lemma county_search_exists:
  assumes c: "c \<in> set county_names" and ww: "whole_word_at c s q"
  shows "\<exists>m. re_search (county_pattern c) s = Some m"
proof (rule ccontr)
  assume "\<not> ?thesis"
  then have "re_search (county_pattern c) s = None"
    by (cases "re_search (county_pattern c) s") auto
  then have "re_search_from (county_pattern c) s 0 (Suc (length s)) = None"
    by (simp only: re_search_def)
  then have none: "\<forall>k. k < Suc (length s) \<longrightarrow> matches (county_pattern c) s k None = []"
    by (simp only: re_search_from_None_iff, simp)
  note sh = county_names_shape[OF c]
  from ww have "prefix c (drop q s)" by (simp add: whole_word_at_def)
  from prefix_drop_facts(1)[OF this] sh have "q < Suc (length s)" by simp
  with none have "matches (county_pattern c) s q None = []" by simp
  moreover from county_pattern_whole_word[of c s q] sh ww
  have "matches (county_pattern c) s q None \<noteq> []" by blast
  ultimately show False by simp
qed

lemma county_matches_iff:
  "(p, c) \<in> set (county_matches s) \<longleftrightarrow>
     c \<in> set county_names \<and> (\<exists>e cap. re_search (county_pattern c) s = Some (p, e, cap))"
proof
  assume "(p, c) \<in> set (county_matches s)"
  then obtain place where "place \<in> set county_names"
    and "(p, c) \<in> set (case re_search (county_pattern place) s of
                          Some m \<Rightarrow> [(fst m, place)] | None \<Rightarrow> [])"
    by (auto simp: county_matches_def)
  then show "c \<in> set county_names \<and> (\<exists>e cap. re_search (county_pattern c) s = Some (p, e, cap))"
    by (auto split: option.splits) metis
next
  assume "c \<in> set county_names \<and> (\<exists>e cap. re_search (county_pattern c) s = Some (p, e, cap))"
  then show "(p, c) \<in> set (county_matches s)"
    by (auto simp: county_matches_def intro!: bexI[of _ c])
qed

lemma find_first:
  "xs = pre @ x # post \<Longrightarrow> P x \<Longrightarrow> \<forall>h \<in> set pre. \<not> P h \<Longrightarrow> find P xs = Some x"
  by (induction pre arbitrary: xs) auto

lemma county_matches_empty:
  assumes "\<forall>c \<in> set county_names. \<forall>i. \<not> whole_word_at c s i"
  shows "county_matches s = []"
proof (rule ccontr)
  assume "county_matches s \<noteq> []"
  then obtain p c where "(p, c) \<in> set (county_matches s)"
    by (cases "county_matches s") auto
  then obtain e cap where c: "c \<in> set county_names"
    and "re_search (county_pattern c) s = Some (p, e, cap)"
    unfolding county_matches_iff by blast
  from county_search_found[OF this] have "whole_word_at c s p" by simp
  with assms c show False by blast
qed

lemma infer_location_county:
  assumes c: "c \<in> set county_names" and ww: "whole_word_at c (str_lower text) i"
  shows "\<exists>best \<in> set county_names. \<exists>p la lo.
           whole_word_at best (str_lower text) p \<and>
           (\<forall>c' \<in> set county_names. \<forall>q. whole_word_at c' (str_lower text) q \<longrightarrow> p \<le> q) \<and>
           map_of LOCATION_HINTS best = Some (la, lo) \<and>
           infer_location text = Inr (str_title best, PFloat (Finite la), PFloat (Finite lo))"
proof -
  define low where "low = str_lower text"
  define cm where "cm = county_matches low"
  from county_search_exists[OF c ww] obtain m where "re_search (county_pattern c) low = Some m"
    unfolding low_def by blast
  then have "(fst m, c) \<in> set cm" unfolding cm_def county_matches_iff using c by (cases m) auto
  then have ne: "cm \<noteq> []" by auto
  obtain p best where b: "hd (sort_key fst cm) = (p, best)" by (cases "hd (sort_key fst cm)") auto
  from hd_sort_key_least[OF ne, of fst] b
  have mem: "(p, best) \<in> set cm" and least: "\<forall>y \<in> set cm. p \<le> fst y" by auto
  from mem obtain e cap where best: "best \<in> set county_names"
    and sr: "re_search (county_pattern best) low = Some (p, e, cap)"
    unfolding cm_def county_matches_iff by blast
  from county_search_found[OF best sr] have wb: "whole_word_at best low p" by simp
  have min: "\<forall>c' \<in> set county_names. \<forall>q. whole_word_at c' low q \<longrightarrow> p \<le> q"
  proof (intro ballI allI impI)
    fix c' q assume c': "c' \<in> set county_names" and w': "whole_word_at c' low q"
    from county_search_exists[OF c' w'] obtain m' where m': "re_search (county_pattern c') low = Some m'"
      by blast
    obtain p' e' cap' where t: "m' = (p', e', cap')" by (cases m') auto
    from county_search_found[OF c' m'[unfolded t]] w' have "p' \<le> q" by blast
    moreover have "(p', c') \<in> set cm" unfolding cm_def county_matches_iff using c' m' t by blast
    with least have "p \<le> p'" by auto
    ultimately show "p \<le> q" by simp
  qed
  from county_hint[OF best] obtain la lo where h: "map_of LOCATION_HINTS best = Some (la, lo)"
    by blast
  have "infer_location text = Inr (str_title best, PFloat (Finite la), PFloat (Finite lo))"
    using ne b h unfolding infer_location_def Let_def low_def[symmetric] cm_def[symmetric]
    by simp
  with best wb min h show ?thesis unfolding low_def by blast
qed

lemma infer_location_place:
  assumes "\<forall>c \<in> set county_names. \<forall>i. \<not> whole_word_at c (str_lower text) i"
    and "LOCATION_HINTS = pre @ (place, la, lo) # post"
    and "sublist place (str_lower text)"
    and "\<forall>h \<in> set pre. \<not> sublist (fst h) (str_lower text)"
  shows "infer_location text = Inr (str_title place, PFloat (Finite la), PFloat (Finite lo))"
proof -
  have "find (\<lambda>(place, coords). sublist place (str_lower text)) LOCATION_HINTS = Some (place, la, lo)"
    using assms(2-4) by (intro find_first[of _ pre _ post]) (auto simp: case_prod_beta)
  with county_matches_empty[OF assms(1)] show ?thesis
    unfolding infer_location_def Let_def by simp
qed

lemma county_in_hints: "c \<in> set county_names \<Longrightarrow> c \<in> fst ` set LOCATION_HINTS"
proof -
  assume "c \<in> set county_names"
  from county_hint[OF this] obtain la lo where "map_of LOCATION_HINTS c = Some (la, lo)" by blast
  from map_of_SomeD[OF this] show ?thesis by force
qed

lemma infer_location_nothing:
  assumes "\<forall>h \<in> set LOCATION_HINTS. \<not> sublist (fst h) (str_lower text)"
  shows "infer_location text = Inr (''Unspecified stretch'', PNone, PNone)"
proof -
  have "\<forall>c \<in> set county_names. \<forall>i. \<not> whole_word_at c (str_lower text) i"
  proof (intro ballI allI notI)
    fix c i assume "c \<in> set county_names" and w: "whole_word_at c (str_lower text) i"
    from county_in_hints[OF this(1)] obtain h where "h \<in> set LOCATION_HINTS" "c = fst h" by blast
    with assms whole_word_sublist[OF w] show False by blast
  qed
  from county_matches_empty[OF this] have cm: "county_matches (str_lower text) = []" .
  have "find (\<lambda>(place, coords). sublist place (str_lower text)) LOCATION_HINTS = None"
    using assms unfolding find_None_iff by (auto simp: case_prod_beta)
  with cm show ?thesis unfolding infer_location_def Let_def by simp
qed

text \<open>
  C4: the location resolver follows the two-phase algorithm. (1) If some county name has a
  word-boundary match in the lower-cased text, the result is a county whose match starts
  where no match of any county starts earlier, with that county's title-cased name and
  coordinates, whatever cities the text names. (2) If no county has a word-boundary match,
  the result is the first place of the table, in table order, that occurs in the text as a
  plain substring. (3) If no place of the table occurs, the result is
  "Unspecified stretch" with both coordinates null.
\<close>

theorem resolver_two_phase:
  "((\<exists>c \<in> set county_names. \<exists>i. whole_word_at c (str_lower text) i) \<longrightarrow>
      (\<exists>best \<in> set county_names. \<exists>p la lo.
          whole_word_at best (str_lower text) p \<and>
          (\<forall>c \<in> set county_names. \<forall>q. whole_word_at c (str_lower text) q \<longrightarrow> p \<le> q) \<and>
          map_of LOCATION_HINTS best = Some (la, lo) \<and>
          infer_location text = Inr (str_title best, PFloat (Finite la), PFloat (Finite lo)))) \<and>
   ((\<forall>c \<in> set county_names. \<forall>i. \<not> whole_word_at c (str_lower text) i) \<longrightarrow>
      (\<forall>pre place la lo post.
          LOCATION_HINTS = pre @ (place, la, lo) # post \<and>
          sublist place (str_lower text) \<and>
          (\<forall>h \<in> set pre. \<not> sublist (fst h) (str_lower text)) \<longrightarrow>
          infer_location text = Inr (str_title place, PFloat (Finite la), PFloat (Finite lo)))) \<and>
   ((\<forall>h \<in> set LOCATION_HINTS. \<not> sublist (fst h) (str_lower text)) \<longrightarrow>
      infer_location text = Inr (''Unspecified stretch'', PNone, PNone))"
proof (intro conjI impI allI)
  assume "\<exists>c \<in> set county_names. \<exists>i. whole_word_at c (str_lower text) i"
  then obtain c i where "c \<in> set county_names" "whole_word_at c (str_lower text) i" by blast
  then show "\<exists>best \<in> set county_names. \<exists>p la lo.
          whole_word_at best (str_lower text) p \<and>
          (\<forall>c \<in> set county_names. \<forall>q. whole_word_at c (str_lower text) q \<longrightarrow> p \<le> q) \<and>
          map_of LOCATION_HINTS best = Some (la, lo) \<and>
          infer_location text = Inr (str_title best, PFloat (Finite la), PFloat (Finite lo))"
    by (rule infer_location_county)
next
  fix pre place la lo post
  assume "\<forall>c \<in> set county_names. \<forall>i. \<not> whole_word_at c (str_lower text) i"
    and "LOCATION_HINTS = pre @ (place, la, lo) # post \<and>
          sublist place (str_lower text) \<and>
          (\<forall>h \<in> set pre. \<not> sublist (fst h) (str_lower text))"
  then show "infer_location text = Inr (str_title place, PFloat (Finite la), PFloat (Finite lo))"
    using infer_location_place by blast
next
  assume "\<forall>h \<in> set LOCATION_HINTS. \<not> sublist (fst h) (str_lower text)"
  then show "infer_location text = Inr (''Unspecified stretch'', PNone, PNone)"
    by (rule infer_location_nothing)
qed

theorem resolver_two_phase_witness:
  "(\<exists>c \<in> set county_names. \<exists>i.
      whole_word_at c (str_lower ''Crash near Fairmont: Harrison County, then Marion County'') i) \<and>
   (\<exists>best \<in> set county_names. \<exists>p la lo.
      whole_word_at best (str_lower ''Crash near Fairmont: Harrison County, then Marion County'') p \<and>
      (\<forall>c \<in> set county_names. \<forall>q.
         whole_word_at c (str_lower ''Crash near Fairmont: Harrison County, then Marion County'') q
           \<longrightarrow> p \<le> q) \<and>
      map_of LOCATION_HINTS best = Some (la, lo) \<and>
      infer_location ''Crash near Fairmont: Harrison County, then Marion County'' =
        Inr (str_title best, PFloat (Finite la), PFloat (Finite lo))) \<and>
   infer_location ''Crash near Fairmont: Harrison County, then Marion County'' =
     Inr (''Harrison County'', PFloat (Finite 39.3032), PFloat (Finite (- 80.3781))) \<and>
   \<not> (\<exists>c \<in> set county_names. \<exists>i. whole_word_at c (str_lower ''I-79 wreck near Fairmont'') i) \<and>
   sublist ''fairmont'' (str_lower ''I-79 wreck near Fairmont'') \<and>
   \<not> (\<exists>h \<in> set ([(''morgantown'', 39.6295, - 79.9559), (''star city'', 39.6579, - 79.9862)] :: (string \<times> rat \<times> rat) list).
         sublist (fst h) (str_lower ''I-79 wreck near Fairmont'')) \<and>
   infer_location ''I-79 wreck near Fairmont'' =
     Inr (''Fairmont'', PFloat (Finite 39.4851), PFloat (Finite (- 80.1426))) \<and>
   \<not> (\<exists>h \<in> set LOCATION_HINTS. sublist (fst h) (str_lower ''Crash on some unnamed stretch'')) \<and>
   infer_location ''Crash on some unnamed stretch'' = Inr (''Unspecified stretch'', PNone, PNone)"
proof -
  let ?t1 = "''Crash near Fairmont: Harrison County, then Marion County''"
  let ?t2 = "''I-79 wreck near Fairmont''"
  let ?t3 = "''Crash on some unnamed stretch''"
  let ?pre = "([(''morgantown'', 39.6295, - 79.9559), (''star city'', 39.6579, - 79.9862)] :: (string \<times> rat \<times> rat) list)"
  have w1: "whole_word_at ''harrison county'' (str_lower ?t1) 21" by code_simp
  have c1: "''harrison county'' \<in> set county_names" by (simp add: county_names_def)
  from w1 c1 have h1: "\<exists>c \<in> set county_names. \<exists>i. whole_word_at c (str_lower ?t1) i" by blast
  have v1: "infer_location ?t1 = Inr (''Harrison County'', PFloat (Finite 39.3032), PFloat (Finite (- 80.3781)))"
    by code_simp
  have n2: "\<not> sublist ''monongalia county'' (str_lower ?t2)"
    "\<not> sublist ''marion county'' (str_lower ?t2)" "\<not> sublist ''harrison county'' (str_lower ?t2)"
    by code_simp+
  have h2: "\<forall>c \<in> set county_names. \<forall>i. \<not> whole_word_at c (str_lower ?t2) i"
  proof (intro ballI allI notI)
    fix c i assume "c \<in> set county_names" and "whole_word_at c (str_lower ?t2) i"
    with county_names_cases[of c] whole_word_sublist[of c "str_lower ?t2" i] n2
    show False by blast
  qed
  have s2: "sublist ''fairmont'' (str_lower ?t2)" by code_simp
  have p2: "\<forall>h \<in> set ?pre. \<not> sublist (fst h) (str_lower ?t2)" by code_simp
  have d2: "LOCATION_HINTS = ?pre @ (''fairmont'', 39.4851, - 80.1426) # drop 3 LOCATION_HINTS"
    by (simp add: LOCATION_HINTS_def)
  have ti: "str_title ''fairmont'' = ''Fairmont''" by code_simp
  have h3: "\<forall>h \<in> set LOCATION_HINTS. \<not> sublist (fst h) (str_lower ?t3)" by code_simp
  note r1 = mp[OF resolver_two_phase[of ?t1, THEN conjunct1] h1]
  note r2a = mp[OF resolver_two_phase[of ?t2, THEN conjunct2, THEN conjunct1] h2]
  note r2 = r2a[THEN spec, THEN spec, THEN spec, THEN spec, THEN spec, THEN mp,
      OF conjI[OF d2 conjI[OF s2 p2]]]
  note r3 = mp[OF resolver_two_phase[of ?t3, THEN conjunct2, THEN conjunct2] h3]
  from h2 have h2': "\<not> (\<exists>c \<in> set county_names. \<exists>i. whole_word_at c (str_lower ?t2) i)" by blast
  from p2 have p2': "\<not> (\<exists>h \<in> set ?pre. sublist (fst h) (str_lower ?t2))" by blast
  from h3 have h3': "\<not> (\<exists>h \<in> set LOCATION_HINTS. sublist (fst h) (str_lower ?t3))" by blast
  from r2 ti have r2': "infer_location ?t2 = Inr (''Fairmont'', PFloat (Finite 39.4851), PFloat (Finite (- 80.1426)))"
    by simp
  show ?thesis
    by (intro conjI) (rule h1 r1 v1 h2' s2 p2' r2' h3' r3)+
qed


section \<open>Properties of the delay-listing parser\<close>

lemma infer_location_paired:
  "\<exists>loc la lo. infer_location t = Inr (loc, la, lo) \<and> ((la = PNone) = (lo = PNone))"
proof (cases "county_matches (str_lower t) = []")
  case True
  show ?thesis
  proof (cases "find (\<lambda>(place, coords). sublist place (str_lower t)) LOCATION_HINTS")
    case None
    with True show ?thesis by (simp add: infer_location_def)
  next
    case (Some h)
    obtain place la lo where "h = (place, la, lo)" by (cases h) auto
    with True Some show ?thesis by (simp add: infer_location_def)
  qed
next
  case False
  obtain p best where b: "hd (sort_key fst (county_matches (str_lower t))) = (p, best)"
    by (cases "hd (sort_key fst (county_matches (str_lower t)))") auto
  from hd_sort_key_least[OF False, of fst] b
  have "(p, best) \<in> set (county_matches (str_lower t))" by simp
  then have "best \<in> set county_names" unfolding county_matches_iff by simp
  from county_hint[OF this] obtain la lo where "map_of LOCATION_HINTS best = Some (la, lo)" by blast
  with False b show ?thesis by (simp add: infer_location_def)
qed

lemma empty_not_in_scope: "str_lower c \<in> NORTH_CENTRAL_COUNTIES \<Longrightarrow> c \<noteq> []"
  by (auto simp: NORTH_CENTRAL_COUNTIES_def str_lower_def)

lemma block_step_other:
  "\<not> prefix ''I-79'' (lines ! i) \<Longrightarrow> block_step lib lines i acc = Inr (i + 1, acc)"
  by (simp add: block_step_def)

lemma block_step_out_of_scope:
  assumes "prefix ''I-79'' (lines ! i)" and "str_lower (block_county lines i) \<notin> NORTH_CENTRAL_COUNTIES"
  shows "block_step lib lines i acc = Inr (max (i + 1) (block_end lines i), acc)"
proof -
  obtain lu county desc nts j where
    sb: "scan_block lines (i + 1) ([], [], [], []) = ((lu, county, desc, nts), j)"
    by (cases "scan_block lines (i + 1) ([], [], [], [])") auto
  with assms show ?thesis
    by (simp add: block_step_def block_county_def block_end_def)
qed

lemma block_step_block:
  assumes "prefix ''I-79'' (lines ! i)"
  shows "block_step lib lines i acc = Inr (max (i + 1) (block_end lines i), acc) \<or>
         (\<exists>inc. block_step lib lines i acc = Inr (max (i + 1) (block_end lines i), acc @ [inc]) \<and>
            location_text inc = block_county lines i \<and>
            str_lower (block_county lines i) \<in> NORTH_CENTRAL_COUNTIES \<and>
            coords_paired inc)"
proof (cases "str_lower (block_county lines i) \<in> NORTH_CENTRAL_COUNTIES")
  case False
  from block_step_out_of_scope[OF assms False] show ?thesis by simp
next
  case True
  obtain lu county desc nts j where
    sb: "scan_block lines (i + 1) ([], [], [], []) = ((lu, county, desc, nts), j)"
    by (cases "scan_block lines (i + 1) ([], [], [], [])") auto
  then have bc: "block_county lines i = county" and be: "block_end lines i = j"
    by (simp_all add: block_county_def block_end_def)
  from True bc have ne: "county \<noteq> []" using empty_not_in_scope by simp
  define event_title where "event_title =
    (if str_strip (replace_first ''I-79'' [] (lines ! i)) \<noteq> []
     then str_strip (replace_first ''I-79'' [] (lines ! i)) else ''Traffic Event'')"
  define blob where "blob = str_strip (''I-79 '' @ event_title @ '' '' @ desc @ '' '' @ nts)"
  obtain loc la lo where il: "infer_location (county @ '' '' @ blob) = Inr (loc, la, lo)"
    and pr: "(la = PNone) = (lo = PNone)" using infer_location_paired by blast
  obtain n where ef: "extract_fatalities blob = Inr n" using extract_fatalities_total by blast
  show ?thesis
  proof (cases "desc \<noteq> [] \<and> \<not> sublist ''i-79'' (str_lower desc)")
    case True
    with assms sb bc be \<open>str_lower (block_county lines i) \<in> NORTH_CENTRAL_COUNTIES\<close>
    have "block_step lib lines i acc = Inr (max (i + 1) (block_end lines i), acc)"
      by (simp add: block_step_def Let_def)
    then show ?thesis by simp
  next
    case False
    with assms sb bc be True il ef
    have "block_step lib lines i acc =
            Inr (max (i + 1) (block_end lines i),
                 acc @ [wv511_incident lib event_title (lu, county, desc, nts) blob (loc, la, lo) n])"
      unfolding block_step_def Let_def event_title_def[symmetric] blob_def
      by (simp add: bind_err_def)
    moreover have "location_text (wv511_incident lib event_title (lu, county, desc, nts) blob (loc, la, lo) n)
                     = block_county lines i"
      using ne bc by (simp add: wv511_incident_def Let_def)
    moreover have "coords_paired (wv511_incident lib event_title (lu, county, desc, nts) blob (loc, la, lo) n)"
      using pr by (simp add: wv511_incident_def Let_def coords_paired_def)
    ultimately show ?thesis using True by blast
  qed
qed

lemma block_step_total:
  assumes "i < length lines"
  shows "\<exists>i' acc'. block_step lib lines i acc = Inr (i', acc') \<and> i < i' \<and>
           (\<forall>inc \<in> set acc'. inc \<in> set acc \<or> from_block lines inc)"
proof (cases "prefix ''I-79'' (lines ! i)")
  case False
  from block_step_other[OF this] show ?thesis by simp
next
  case True
  from block_step_block[OF True, of lib acc] show ?thesis
  proof
    assume "block_step lib lines i acc = Inr (max (i + 1) (block_end lines i), acc)"
    then show ?thesis by simp
  next
    assume "\<exists>inc. block_step lib lines i acc = Inr (max (i + 1) (block_end lines i), acc @ [inc]) \<and>
            location_text inc = block_county lines i \<and>
            str_lower (block_county lines i) \<in> NORTH_CENTRAL_COUNTIES \<and>
            coords_paired inc"
    then obtain inc where s: "block_step lib lines i acc = Inr (max (i + 1) (block_end lines i), acc @ [inc])"
      and "location_text inc = block_county lines i"
      "str_lower (block_county lines i) \<in> NORTH_CENTRAL_COUNTIES" "coords_paired inc" by blast
    with True assms have "from_block lines inc" unfolding from_block_def by blast
    with s show ?thesis by auto
  qed
qed

lemma parse_loop_result:
  "\<exists>out. parse_loop lib lines i acc = Some (Inr out) \<and>
         (\<forall>inc \<in> set out. inc \<in> set acc \<or> from_block lines inc)"
proof (induction "length lines - i" arbitrary: i acc rule: less_induct)
  case less
  show ?case
  proof (cases "i < length lines")
    case False
    then show ?thesis by (subst parse_loop.simps) simp
  next
    case True
    from block_step_total[OF True, of lib acc] obtain i' acc' where
      s: "block_step lib lines i acc = Inr (i', acc')" and adv: "i < i'"
      and mem: "\<forall>inc \<in> set acc'. inc \<in> set acc \<or> from_block lines inc" by blast
    from adv True have "length lines - i' < length lines - i" by simp
    from less[OF this, of acc'] obtain out where
      o: "parse_loop lib lines i' acc' = Some (Inr out)"
      and om: "\<forall>inc \<in> set out. inc \<in> set acc' \<or> from_block lines inc" by blast
    from True s o have "parse_loop lib lines i acc = Some (Inr out)"
      by (subst parse_loop.simps) simp
    moreover from om mem have "\<forall>inc \<in> set out. inc \<in> set acc \<or> from_block lines inc" by blast
    ultimately show ?thesis by blast
  qed
qed


text \<open>
  C6: a block whose collected County field, lower-cased, is not one of the three in-scope
  counties adds nothing to the output, whatever its Description says: the pass over such a
  block leaves the list of incidents as it is, and every incident of the parser's output
  carries the County field of a block of the input whose lower-cased county is in scope.
\<close>

theorem out_of_scope_block_excluded:
  "(i < length lines \<and> prefix ''I-79'' (lines ! i) \<and>
      str_lower (block_county lines i) \<notin> NORTH_CENTRAL_COUNTIES \<longrightarrow>
      block_step lib lines i incidents = Inr (max (i + 1) (block_end lines i), incidents)) \<and>
   (parse_wv511_i79_incidents lib lines = Some (Inr out) \<longrightarrow>
      (\<forall>inc \<in> set out. \<exists>k < length lines.
          prefix ''I-79'' (lines ! k) \<and>
          location_text inc = block_county lines k \<and>
          str_lower (block_county lines k) \<in> NORTH_CENTRAL_COUNTIES))"
proof (intro conjI impI)
  assume "i < length lines \<and> prefix ''I-79'' (lines ! i) \<and>
      str_lower (block_county lines i) \<notin> NORTH_CENTRAL_COUNTIES"
  then show "block_step lib lines i incidents = Inr (max (i + 1) (block_end lines i), incidents)"
    using block_step_out_of_scope by blast
next
  assume a: "parse_wv511_i79_incidents lib lines = Some (Inr out)"
  from parse_loop_result[of lib lines 0 "[]"] a
  have "\<forall>inc \<in> set out. from_block lines inc"
    unfolding parse_wv511_i79_incidents_def by auto
  then show "\<forall>inc \<in> set out. \<exists>k < length lines.
          prefix ''I-79'' (lines ! k) \<and>
          location_text inc = block_county lines k \<and>
          str_lower (block_county lines k) \<in> NORTH_CENTRAL_COUNTIES"
    unfolding from_block_def by blast
qed

theorem out_of_scope_block_excluded_witness:
  "(0 < length demo_lines \<and> prefix ''I-79'' (demo_lines ! 0) \<and>
      str_lower (block_county demo_lines 0) \<notin> NORTH_CENTRAL_COUNTIES) \<and>
   sublist ''I-79'' (demo_lines ! 2) \<and>
   block_step demo_lib demo_lines 0 [] = Inr (3, []) \<and>
   parse_wv511_i79_incidents demo_lib demo_lines = Some (Inr [demo_incident]) \<and>
   (\<exists>k < length demo_lines.
      prefix ''I-79'' (demo_lines ! k) \<and>
      location_text demo_incident = block_county demo_lines k \<and>
      str_lower (block_county demo_lines k) \<in> NORTH_CENTRAL_COUNTIES)"
proof -
  have h1: "0 < length demo_lines \<and> prefix ''I-79'' (demo_lines ! 0) \<and>
      str_lower (block_county demo_lines 0) \<notin> NORTH_CENTRAL_COUNTIES" by code_simp
  have d: "sublist ''I-79'' (demo_lines ! 2)" by code_simp
  have e: "max (0 + 1) (block_end demo_lines 0) = 3" by code_simp
  have h2: "parse_wv511_i79_incidents demo_lib demo_lines = Some (Inr [demo_incident])"
    by code_simp
  note t = out_of_scope_block_excluded[of 0 demo_lines demo_lib "[]" "[demo_incident]"]
  from t h1 e have s: "block_step demo_lib demo_lines 0 [] = Inr (3, [])" by simp
  from t h2 have "\<exists>k < length demo_lines.
      prefix ''I-79'' (demo_lines ! k) \<and>
      location_text demo_incident = block_county demo_lines k \<and>
      str_lower (block_county demo_lines k) \<in> NORTH_CENTRAL_COUNTIES" by simp
  with h1 d s h2 show ?thesis by blast
qed


section \<open>Properties of the manual overrides\<close>

lemma bind_err_Inr:
  "bind_err x f = Inr y \<longleftrightarrow> (\<exists>v. x = Inr v \<and> f v = Inr y)"
  by (cases x) (auto simp: bind_err_def)

lemma apply_patch_steps:
  assumes "apply_patch lib inc patch = Inr inc'"
  shows "\<exists>inc1 inc2 inc3 inc4.
    inc1 = (case map_of patch ''construction_related'' of
              Some v \<Rightarrow> inc\<lparr>construction_related := py_bool v\<rparr> | None \<Rightarrow> inc) \<and>
    (case map_of patch ''suspected_fatalities'' of
       Some v \<Rightarrow> bind_err (py_int v) (\<lambda>n. Inr (inc1\<lparr>suspected_fatalities := n\<rparr>))
     | None \<Rightarrow> Inr inc1) = Inr inc2 \<and>
    (case map_of patch ''verified_fatalities'' of
       Some v \<Rightarrow> (if v \<noteq> PNone
                   then bind_err (py_int v) (\<lambda>n. Inr (inc2\<lparr>verified_fatalities := PInt n\<rparr>))
                   else Inr (inc2\<lparr>verified_fatalities := PNone\<rparr>))
     | None \<Rightarrow> Inr inc2) = Inr inc3 \<and>
    inc4 = (case map_of patch ''verification_status'' of
              Some v \<Rightarrow> inc3\<lparr>verification_status := py_str lib v\<rparr> | None \<Rightarrow> inc3) \<and>
    inc' = (case map_of patch ''notes'' of
              Some v \<Rightarrow> inc4\<lparr>inc_notes := py_str lib v\<rparr> | None \<Rightarrow> inc4)"
  using assms unfolding apply_patch_def Let_def bind_err_Inr by auto

lemma step_construction:
  "inc1 = (case m of Some v \<Rightarrow> inc\<lparr>construction_related := py_bool v\<rparr> | None \<Rightarrow> inc) \<Longrightarrow>
   frame_eq inc1 inc \<and> suspected_fatalities inc1 = suspected_fatalities inc \<and>
   verified_fatalities inc1 = verified_fatalities inc \<and>
   verification_status inc1 = verification_status inc \<and> inc_notes inc1 = inc_notes inc \<and>
   (m = None \<longrightarrow> construction_related inc1 = construction_related inc)"
  by (cases m) (auto simp: frame_eq_def)

lemma step_suspected:
  "(case m of Some v \<Rightarrow> bind_err (py_int v) (\<lambda>n. Inr (inc1\<lparr>suspected_fatalities := n\<rparr>))
            | None \<Rightarrow> Inr inc1) = Inr inc2 \<Longrightarrow>
   frame_eq inc2 inc1 \<and> construction_related inc2 = construction_related inc1 \<and>
   verified_fatalities inc2 = verified_fatalities inc1 \<and>
   verification_status inc2 = verification_status inc1 \<and> inc_notes inc2 = inc_notes inc1 \<and>
   (m = None \<longrightarrow> suspected_fatalities inc2 = suspected_fatalities inc1)"
  by (cases m) (auto simp: frame_eq_def bind_err_Inr)

lemma step_verified:
  "(case m of
       Some v \<Rightarrow> (if v \<noteq> PNone
                   then bind_err (py_int v) (\<lambda>n. Inr (inc2\<lparr>verified_fatalities := PInt n\<rparr>))
                   else Inr (inc2\<lparr>verified_fatalities := PNone\<rparr>))
     | None \<Rightarrow> Inr inc2) = Inr inc3 \<Longrightarrow>
   frame_eq inc3 inc2 \<and> construction_related inc3 = construction_related inc2 \<and>
   suspected_fatalities inc3 = suspected_fatalities inc2 \<and>
   verification_status inc3 = verification_status inc2 \<and> inc_notes inc3 = inc_notes inc2 \<and>
   (m = None \<longrightarrow> verified_fatalities inc3 = verified_fatalities inc2) \<and>
   (m = Some PNone \<longrightarrow> verified_fatalities inc3 = PNone)"
  by (cases m) (auto simp: frame_eq_def bind_err_Inr split: if_splits)

lemma step_status:
  "inc4 = (case m of Some v \<Rightarrow> inc3\<lparr>verification_status := py_str lib v\<rparr> | None \<Rightarrow> inc3) \<Longrightarrow>
   frame_eq inc4 inc3 \<and> construction_related inc4 = construction_related inc3 \<and>
   suspected_fatalities inc4 = suspected_fatalities inc3 \<and>
   verified_fatalities inc4 = verified_fatalities inc3 \<and> inc_notes inc4 = inc_notes inc3 \<and>
   (m = None \<longrightarrow> verification_status inc4 = verification_status inc3)"
  by (cases m) (auto simp: frame_eq_def)

lemma step_notes:
  "inc5 = (case m of Some v \<Rightarrow> inc4\<lparr>inc_notes := py_str lib v\<rparr> | None \<Rightarrow> inc4) \<Longrightarrow>
   frame_eq inc5 inc4 \<and> construction_related inc5 = construction_related inc4 \<and>
   suspected_fatalities inc5 = suspected_fatalities inc4 \<and>
   verified_fatalities inc5 = verified_fatalities inc4 \<and>
   verification_status inc5 = verification_status inc4 \<and>
   (m = None \<longrightarrow> inc_notes inc5 = inc_notes inc4)"
  by (cases m) (auto simp: frame_eq_def)

lemma frame_eq_trans: "frame_eq a b \<Longrightarrow> frame_eq b c \<Longrightarrow> frame_eq a c"
  by (simp add: frame_eq_def)

lemma frame_eq_refl: "frame_eq a a"
  by (simp add: frame_eq_def)

lemma apply_patch_frame:
  assumes "apply_patch lib inc patch = Inr inc'"
  shows "frame_eq inc' inc"
    and "map_of patch ''construction_related'' = None \<Longrightarrow>
           construction_related inc' = construction_related inc"
    and "map_of patch ''suspected_fatalities'' = None \<Longrightarrow>
           suspected_fatalities inc' = suspected_fatalities inc"
    and "map_of patch ''verified_fatalities'' = None \<Longrightarrow>
           verified_fatalities inc' = verified_fatalities inc"
    and "map_of patch ''verification_status'' = None \<Longrightarrow>
           verification_status inc' = verification_status inc"
    and "map_of patch ''notes'' = None \<Longrightarrow> inc_notes inc' = inc_notes inc"
    and "map_of patch ''verified_fatalities'' = Some PNone \<Longrightarrow> verified_fatalities inc' = PNone"
proof -
  from apply_patch_steps[OF assms] obtain inc1 inc2 inc3 inc4 where
    s1: "inc1 = (case map_of patch ''construction_related'' of
              Some v \<Rightarrow> inc\<lparr>construction_related := py_bool v\<rparr> | None \<Rightarrow> inc)" and
    s2: "(case map_of patch ''suspected_fatalities'' of
       Some v \<Rightarrow> bind_err (py_int v) (\<lambda>n. Inr (inc1\<lparr>suspected_fatalities := n\<rparr>))
     | None \<Rightarrow> Inr inc1) = Inr inc2" and
    s3: "(case map_of patch ''verified_fatalities'' of
       Some v \<Rightarrow> (if v \<noteq> PNone
                   then bind_err (py_int v) (\<lambda>n. Inr (inc2\<lparr>verified_fatalities := PInt n\<rparr>))
                   else Inr (inc2\<lparr>verified_fatalities := PNone\<rparr>))
     | None \<Rightarrow> Inr inc2) = Inr inc3" and
    s4: "inc4 = (case map_of patch ''verification_status'' of
              Some v \<Rightarrow> inc3\<lparr>verification_status := py_str lib v\<rparr> | None \<Rightarrow> inc3)" and
    s5: "inc' = (case map_of patch ''notes'' of
              Some v \<Rightarrow> inc4\<lparr>inc_notes := py_str lib v\<rparr> | None \<Rightarrow> inc4)"
    by (elim exE conjE)
  note f1 = step_construction[OF s1] and f2 = step_suspected[OF s2] and f3 = step_verified[OF s3]
    and f4 = step_status[OF s4] and f5 = step_notes[OF s5]
  from f1 f2 f3 f4 f5 show "frame_eq inc' inc" by (meson frame_eq_trans)
  from f1 f2 f3 f4 f5 show "map_of patch ''construction_related'' = None \<Longrightarrow>
           construction_related inc' = construction_related inc" by simp
  from f1 f2 f3 f4 f5 show "map_of patch ''suspected_fatalities'' = None \<Longrightarrow>
           suspected_fatalities inc' = suspected_fatalities inc" by simp
  from f1 f2 f3 f4 f5 show "map_of patch ''verified_fatalities'' = None \<Longrightarrow>
           verified_fatalities inc' = verified_fatalities inc" by simp
  from f1 f2 f3 f4 f5 show "map_of patch ''verification_status'' = None \<Longrightarrow>
           verification_status inc' = verification_status inc" by simp
  from f1 f2 f3 f4 f5 show "map_of patch ''notes'' = None \<Longrightarrow> inc_notes inc' = inc_notes inc"
    by simp
  from f1 f2 f3 f4 f5 show "map_of patch ''verified_fatalities'' = Some PNone \<Longrightarrow>
           verified_fatalities inc' = PNone" by simp
qed

lemma update_set: "kv \<in> set (AList.update k v al) \<Longrightarrow> kv = (k, v) \<or> kv \<in> set al"
  by (induction al) (auto split: if_splits)

lemma keyed_update:
  assumes "keyed d" and "inc_id v = k"
  shows "keyed (AList.update k v d)"
proof -
  have "\<forall>kv \<in> set (AList.update k v d). inc_id (snd kv) = fst kv"
  proof
    fix kv assume "kv \<in> set (AList.update k v d)"
    from update_set[OF this] show "inc_id (snd kv) = fst kv"
      using assms unfolding keyed_def by auto
  qed
  moreover have "distinct (map fst (AList.update k v d))"
    using assms(1) unfolding keyed_def by (simp add: distinct_update)
  ultimately show ?thesis unfolding keyed_def by simp
qed

lemma all_values_update:
  assumes "all_values P d" and "P v"
  shows "all_values P (AList.update k v d)"
  unfolding all_values_def
proof
  fix kv assume "kv \<in> set (AList.update k v d)"
  from update_set[OF this] show "P (snd kv)"
    using assms unfolding all_values_def by auto
qed

lemma keyed_lookup: "keyed d \<Longrightarrow> map_of d k = Some v \<Longrightarrow> inc_id v = k"
  unfolding keyed_def by (auto dest: map_of_SomeD)

lemma all_values_lookup:
  assumes "all_values P d" and "map_of d k = Some v"
  shows "P v"
proof -
  from map_of_SomeD[OF assms(2)] have "(k, v) \<in> set d" .
  with assms(1) have "P (snd (k, v))" unfolding all_values_def by blast
  then show ?thesis by simp
qed

lemma keyed_foldl:
  "keyed d \<Longrightarrow> keyed (foldl (\<lambda>d inc. AList.update (inc_id inc) inc d) d incs)"
  by (induction incs arbitrary: d) (auto simp: keyed_update)

lemma keyed_index: "keyed (index_by_id incs)"
  unfolding index_by_id_def by (rule keyed_foldl) (simp add: keyed_def)

lemma find_snoc:
  "find P (xs @ [a]) = (case find P xs of Some x \<Rightarrow> Some x | None \<Rightarrow> if P a then Some a else None)"
  by (induction xs) auto

lemma map_of_foldl:
  "map_of (foldl (\<lambda>d inc. AList.update (inc_id inc) inc d) d incs) k =
     (case find (\<lambda>x. inc_id x = k) (rev incs) of Some x \<Rightarrow> Some x | None \<Rightarrow> map_of d k)"
proof (induction incs arbitrary: d)
  case Nil
  show ?case by simp
next
  case (Cons a incs)
  have "map_of (foldl (\<lambda>d inc. AList.update (inc_id inc) inc d) d (a # incs)) k =
        (case find (\<lambda>x. inc_id x = k) (rev incs) of
           Some x \<Rightarrow> Some x
         | None \<Rightarrow> map_of (AList.update (inc_id a) a d) k)"
    using Cons.IH[of "AList.update (inc_id a) a d"] by simp
  also have "\<dots> = (case find (\<lambda>x. inc_id x = k) (rev (a # incs)) of
                      Some x \<Rightarrow> Some x | None \<Rightarrow> map_of d k)"
    by (cases "find (\<lambda>x. inc_id x = k) (rev incs)") (auto simp: find_snoc update_conv')
  finally show ?case .
qed

lemma map_of_index: "map_of (index_by_id incs) k = find (\<lambda>x. inc_id x = k) (rev incs)"
  unfolding index_by_id_def by (simp add: map_of_foldl split: option.splits)

lemma keyed_values: "keyed d \<Longrightarrow> map inc_id (map snd d) = map fst d"
  unfolding keyed_def by (induction d) auto

lemma apply_overrides_inv:
  assumes closed: "\<And>a b. frame_eq a b \<Longrightarrow> P b \<Longrightarrow> P a"
  shows "keyed d \<Longrightarrow> all_values P d \<Longrightarrow> apply_overrides lib items d = Inr d' \<Longrightarrow>
         keyed d' \<and> all_values P d'"
proof (induction items arbitrary: d)
  case Nil
  then show ?case by simp
next
  case (Cons item items)
  obtain key patch where item: "item = (key, patch)" by (cases item) auto
  show ?case
  proof (cases "map_of d key")
    case None
    with Cons.prems item have "apply_overrides lib items d = Inr d'" by simp
    from Cons.IH[OF Cons.prems(1,2) this] show ?thesis .
  next
    case (Some incident)
    show ?thesis
    proof (cases "\<exists>p. patch = PDict p")
      case False
      with Cons.prems item Some have "apply_overrides lib items d = Inr d'"
        by (cases patch) auto
      from Cons.IH[OF Cons.prems(1,2) this] show ?thesis .
    next
      case True
      then obtain p where p: "patch = PDict p" ..
      with Cons.prems(3) item Some obtain inc' where
        ap: "apply_patch lib incident p = Inr inc'"
        and rest: "apply_overrides lib items (AList.update key inc' d) = Inr d'"
        by (auto simp: bind_err_Inr)
      from apply_patch_frame(1)[OF ap] have fe: "frame_eq inc' incident" .
      from keyed_lookup[OF Cons.prems(1) Some] fe have "inc_id inc' = key"
        by (simp add: frame_eq_def)
      from keyed_update[OF Cons.prems(1) this] have k: "keyed (AList.update key inc' d)" .
      from closed[OF fe all_values_lookup[OF Cons.prems(2) Some]] have "P inc'" .
      from all_values_update[OF Cons.prems(2) this]
      have a: "all_values P (AList.update key inc' d)" .
      from Cons.IH[OF k a rest] show ?thesis .
    qed
  qed
qed

lemma add_manual_inv:
  "keyed d \<Longrightarrow> all_values P d \<Longrightarrow> add_manual lib raws d = Inr d' \<Longrightarrow>
   \<forall>raw inc. PDict raw \<in> set raws \<longrightarrow> manual_incident lib raw = Inr (Some inc) \<longrightarrow> P inc \<Longrightarrow>
   keyed d' \<and> all_values P d'"
proof (induction raws arbitrary: d)
  case Nil
  then show ?case by simp
next
  case (Cons r raws)
  have made': "\<forall>raw inc. PDict raw \<in> set raws \<longrightarrow> manual_incident lib raw = Inr (Some inc) \<longrightarrow> P inc"
    using Cons.prems(4) by simp
  show ?case
  proof (cases "\<exists>raw. r = PDict raw")
    case False
    with Cons.prems(3) have "add_manual lib raws d = Inr d'" by (cases r) auto
    from Cons.IH[OF Cons.prems(1,2) this made'] show ?thesis .
  next
    case True
    then obtain raw where r: "r = PDict raw" ..
    with Cons.prems(3) obtain m where mi: "manual_incident lib raw = Inr m"
      and rest: "(case m of None \<Rightarrow> add_manual lib raws d
                  | Some incident \<Rightarrow> add_manual lib raws (AList.update (inc_id incident) incident d)) = Inr d'"
      by (auto simp: bind_err_Inr)
    show ?thesis
    proof (cases m)
      case None
      with rest have "add_manual lib raws d = Inr d'" by simp
      from Cons.IH[OF Cons.prems(1,2) this made'] show ?thesis .
    next
      case (Some incident)
      with rest have rest': "add_manual lib raws (AList.update (inc_id incident) incident d) = Inr d'"
        by simp
      from Cons.prems(4) r mi Some have "P incident" by simp
      from all_values_update[OF Cons.prems(2) this]
      have a: "all_values P (AList.update (inc_id incident) incident d)" .
      from keyed_update[OF Cons.prems(1) refl]
      have k: "keyed (AList.update (inc_id incident) incident d)" .
      from Cons.IH[OF k a rest' made'] show ?thesis .
    qed
  qed
qed

lemma all_values_mono: "all_values P d \<Longrightarrow> (\<And>v. P v \<Longrightarrow> Q v) \<Longrightarrow> all_values Q d"
  unfolding all_values_def by blast

lemma apply_manual_overrides_inv:
  assumes closed: "\<And>a b. frame_eq a b \<Longrightarrow> P b \<Longrightarrow> P a"
    and init: "all_values P (index_by_id incidents)"
    and made: "\<And>raws raw inc.
       py_iter (dict_get payload ''manual_incidents'' (PList [])) = Inr raws \<Longrightarrow>
       PDict raw \<in> set raws \<Longrightarrow> manual_incident lib raw = Inr (Some inc) \<Longrightarrow> Q inc"
    and weaken: "\<And>v. P v \<Longrightarrow> Q v"
    and res: "apply_manual_overrides lib incidents payload = Inr out"
  shows "distinct (map inc_id out) \<and> (\<forall>inc \<in> set out. Q inc)"
proof -
  from res obtain items d1 raws d2 where
    "override_items payload = Inr items"
    and o: "apply_overrides lib items (index_by_id incidents) = Inr d1"
    and it: "py_iter (dict_get payload ''manual_incidents'' (PList [])) = Inr raws"
    and m: "add_manual lib raws d1 = Inr d2"
    and out: "out = map snd d2"
    unfolding apply_manual_overrides_def bind_err_Inr by auto
  from apply_overrides_inv[of P, OF closed keyed_index init o]
  have k1: "keyed d1" and a1: "all_values P d1" by simp_all
  from all_values_mono[OF a1 weaken] have q1: "all_values Q d1" .
  have "\<forall>raw inc. PDict raw \<in> set raws \<longrightarrow> manual_incident lib raw = Inr (Some inc) \<longrightarrow> Q inc"
    using made[OF it] by blast
  from add_manual_inv[OF k1 q1 m this]
  have k2: "keyed d2" and q2: "all_values Q d2" by simp_all
  from keyed_values[OF k2] have "map inc_id out = map fst d2" unfolding out .
  with k2 have "distinct (map inc_id out)" by (simp add: keyed_def)
  moreover from q2 have "\<forall>inc \<in> set out. Q inc" unfolding out all_values_def by auto
  ultimately show ?thesis by simp
qed

text \<open>
  C7: when an override patch is applied to an existing incident and the coercions succeed,
  every field that no patch key writes keeps its value, every patchable field whose key is
  not in the patch keeps its value, and a patch that maps \<open>verified_fatalities\<close> to null
  sets that field to null. The loop over the overrides stores the patched incident under
  the key of the existing one.
\<close>

theorem patch_keeps_absent_fields:
  "apply_patch lib incident patch = Inr patched \<longrightarrow>
     inc_id patched = inc_id incident \<and> title patched = title incident \<and>
     url patched = url incident \<and> source patched = source incident \<and>
     published_at patched = published_at incident \<and> summary patched = summary incident \<and>
     location_text patched = location_text incident \<and> lat patched = lat incident \<and>
     lon patched = lon incident \<and> source_type patched = source_type incident \<and>
     (''construction_related'' \<notin> fst ` set patch \<longrightarrow>
        construction_related patched = construction_related incident) \<and>
     (''suspected_fatalities'' \<notin> fst ` set patch \<longrightarrow>
        suspected_fatalities patched = suspected_fatalities incident) \<and>
     (''verified_fatalities'' \<notin> fst ` set patch \<longrightarrow>
        verified_fatalities patched = verified_fatalities incident) \<and>
     (''verification_status'' \<notin> fst ` set patch \<longrightarrow>
        verification_status patched = verification_status incident) \<and>
     (''notes'' \<notin> fst ` set patch \<longrightarrow> inc_notes patched = inc_notes incident) \<and>
     (map_of patch ''verified_fatalities'' = Some PNone \<longrightarrow> verified_fatalities patched = PNone) \<and>
     (map_of by_id key = Some incident \<longrightarrow>
        apply_overrides lib [(key, PDict patch)] by_id = Inr (AList.update key patched by_id))"
proof
  assume a: "apply_patch lib incident patch = Inr patched"
  note f = apply_patch_frame[OF a]
  have absent: "\<And>k. k \<notin> fst ` set patch \<Longrightarrow> map_of patch k = None"
    by (simp add: map_of_eq_None_iff)
  have ov: "map_of by_id key = Some incident \<longrightarrow>
        apply_overrides lib [(key, PDict patch)] by_id = Inr (AList.update key patched by_id)"
    using a by (simp add: bind_err_def)
  from f(1) have fr: "inc_id patched = inc_id incident \<and> title patched = title incident \<and>
     url patched = url incident \<and> source patched = source incident \<and>
     published_at patched = published_at incident \<and> summary patched = summary incident \<and>
     location_text patched = location_text incident \<and> lat patched = lat incident \<and>
     lon patched = lon incident \<and> source_type patched = source_type incident"
    by (simp add: frame_eq_def)
  show "inc_id patched = inc_id incident \<and> title patched = title incident \<and>
     url patched = url incident \<and> source patched = source incident \<and>
     published_at patched = published_at incident \<and> summary patched = summary incident \<and>
     location_text patched = location_text incident \<and> lat patched = lat incident \<and>
     lon patched = lon incident \<and> source_type patched = source_type incident \<and>
     (''construction_related'' \<notin> fst ` set patch \<longrightarrow>
        construction_related patched = construction_related incident) \<and>
     (''suspected_fatalities'' \<notin> fst ` set patch \<longrightarrow>
        suspected_fatalities patched = suspected_fatalities incident) \<and>
     (''verified_fatalities'' \<notin> fst ` set patch \<longrightarrow>
        verified_fatalities patched = verified_fatalities incident) \<and>
     (''verification_status'' \<notin> fst ` set patch \<longrightarrow>
        verification_status patched = verification_status incident) \<and>
     (''notes'' \<notin> fst ` set patch \<longrightarrow> inc_notes patched = inc_notes incident) \<and>
     (map_of patch ''verified_fatalities'' = Some PNone \<longrightarrow> verified_fatalities patched = PNone) \<and>
     (map_of by_id key = Some incident \<longrightarrow>
        apply_overrides lib [(key, PDict patch)] by_id = Inr (AList.update key patched by_id))"
    using fr f(2-7) absent ov by simp
qed

theorem patch_keeps_absent_fields_witness:
  "apply_patch demo_lib (demo_incident\<lparr>verified_fatalities := PInt 2\<rparr>) patch_demo =
     Inr (demo_incident\<lparr>inc_notes := ''confirmed''\<rparr>) \<and>
   ''construction_related'' \<notin> fst ` set patch_demo \<and>
   ''suspected_fatalities'' \<notin> fst ` set patch_demo \<and>
   ''verification_status'' \<notin> fst ` set patch_demo \<and>
   map_of patch_demo ''verified_fatalities'' = Some PNone \<and>
   construction_related (demo_incident\<lparr>inc_notes := ''confirmed''\<rparr>) =
     construction_related (demo_incident\<lparr>verified_fatalities := PInt 2\<rparr>) \<and>
   suspected_fatalities (demo_incident\<lparr>inc_notes := ''confirmed''\<rparr>) =
     suspected_fatalities (demo_incident\<lparr>verified_fatalities := PInt 2\<rparr>) \<and>
   verification_status (demo_incident\<lparr>inc_notes := ''confirmed''\<rparr>) =
     verification_status (demo_incident\<lparr>verified_fatalities := PInt 2\<rparr>) \<and>
   title (demo_incident\<lparr>inc_notes := ''confirmed''\<rparr>) =
     title (demo_incident\<lparr>verified_fatalities := PInt 2\<rparr>) \<and>
   verified_fatalities (demo_incident\<lparr>verified_fatalities := PInt 2\<rparr>) = PInt 2 \<and>
   verified_fatalities (demo_incident\<lparr>inc_notes := ''confirmed''\<rparr>) = PNone"
proof -
  have e: "apply_patch demo_lib (demo_incident\<lparr>verified_fatalities := PInt 2\<rparr>) patch_demo =
     Inr (demo_incident\<lparr>inc_notes := ''confirmed''\<rparr>)" by code_simp
  have k: "''construction_related'' \<notin> fst ` set patch_demo"
    "''suspected_fatalities'' \<notin> fst ` set patch_demo"
    "''verification_status'' \<notin> fst ` set patch_demo"
    "map_of patch_demo ''verified_fatalities'' = Some PNone"
    by (simp_all add: patch_demo_def)
  note t = patch_keeps_absent_fields[of demo_lib "demo_incident\<lparr>verified_fatalities := PInt 2\<rparr>"
      patch_demo "demo_incident\<lparr>inc_notes := ''confirmed''\<rparr>", THEN mp, OF e]
  have v: "verified_fatalities (demo_incident\<lparr>verified_fatalities := PInt 2\<rparr>) = PInt 2" by simp
  from t k e v show ?thesis by simp
qed

lemma index_values:
  assumes "(k, v) \<in> set (index_by_id incs)"
  shows "k = inc_id v" and "find (\<lambda>x. inc_id x = inc_id v) (rev incs) = Some v" and "v \<in> set incs"
proof -
  from keyed_index[of incs] assms show k: "k = inc_id v" unfolding keyed_def by force
  from keyed_index[of incs] have "distinct (map fst (index_by_id incs))" unfolding keyed_def by simp
  from map_of_is_SomeI[OF this assms] have "map_of (index_by_id incs) k = Some v" .
  then show f: "find (\<lambda>x. inc_id x = inc_id v) (rev incs) = Some v"
    unfolding map_of_index k .
  then have "v \<in> set (rev incs)" unfolding find_Some_iff by (metis nth_mem)
  then show "v \<in> set incs" by simp
qed

lemma apply_manual_overrides_empty:
  "apply_manual_overrides lib incidents [] = Inr (map snd (index_by_id incidents))"
  by (simp add: apply_manual_overrides_def override_items_def dict_get_def py_iter_def bind_err_def)

lemma overrides_provenance:
  assumes "apply_manual_overrides lib incidents payload = Inr out"
  shows "distinct (map inc_id out) \<and>
     (\<forall>inc \<in> set out.
         (\<exists>l. find (\<lambda>x. inc_id x = inc_id inc) (rev incidents) = Some l \<and> frame_eq inc l) \<or>
         (\<exists>raws raw. py_iter (dict_get payload ''manual_incidents'' (PList [])) = Inr raws \<and>
            PDict raw \<in> set raws \<and> manual_incident lib raw = Inr (Some inc)))"
proof (rule apply_manual_overrides_inv[where
      P = "\<lambda>v. \<exists>l. find (\<lambda>x. inc_id x = inc_id v) (rev incidents) = Some l \<and> frame_eq v l",
      OF _ _ _ _ assms])
  fix a b
  assume fe: "frame_eq a b"
    and "\<exists>l. find (\<lambda>x. inc_id x = inc_id b) (rev incidents) = Some l \<and> frame_eq b l"
  then obtain l where "find (\<lambda>x. inc_id x = inc_id b) (rev incidents) = Some l" "frame_eq b l"
    by blast
  moreover from fe have "inc_id a = inc_id b" by (simp add: frame_eq_def)
  ultimately show "\<exists>l. find (\<lambda>x. inc_id x = inc_id a) (rev incidents) = Some l \<and> frame_eq a l"
    using frame_eq_trans[OF fe] by auto
next
  show "all_values (\<lambda>v. \<exists>l. find (\<lambda>x. inc_id x = inc_id v) (rev incidents) = Some l \<and> frame_eq v l)
          (index_by_id incidents)"
    unfolding all_values_def
  proof
    fix kv assume "kv \<in> set (index_by_id incidents)"
    then have "(fst kv, snd kv) \<in> set (index_by_id incidents)" by simp
    from index_values(2)[OF this] frame_eq_refl[of "snd kv"]
    show "\<exists>l. find (\<lambda>x. inc_id x = inc_id (snd kv)) (rev incidents) = Some l \<and> frame_eq (snd kv) l"
      by blast
  qed
next
  fix raws raw inc
  assume "py_iter (dict_get payload ''manual_incidents'' (PList [])) = Inr raws"
    "PDict raw \<in> set raws" "manual_incident lib raw = Inr (Some inc)"
  then show "(\<exists>l. find (\<lambda>x. inc_id x = inc_id inc) (rev incidents) = Some l \<and> frame_eq inc l) \<or>
         (\<exists>raws raw. py_iter (dict_get payload ''manual_incidents'' (PList [])) = Inr raws \<and>
            PDict raw \<in> set raws \<and> manual_incident lib raw = Inr (Some inc))"
    by blast
next
  fix v
  assume "\<exists>l. find (\<lambda>x. inc_id x = inc_id v) (rev incidents) = Some l \<and> frame_eq v l"
  then show "(\<exists>l. find (\<lambda>x. inc_id x = inc_id v) (rev incidents) = Some l \<and> frame_eq v l) \<or>
         (\<exists>raws raw. py_iter (dict_get payload ''manual_incidents'' (PList [])) = Inr raws \<and>
            PDict raw \<in> set raws \<and> manual_incident lib raw = Inr (Some v))"
    by blast
qed

text \<open>
  C8: the list returned by \<open>apply_manual_overrides\<close> holds at most one incident per id,
  for every input list and payload. Each returned incident is built from a manual record
  or is, up to the fields that patches write, the last incident of the input list with its
  id: the dictionary built on entry maps every id to its last occurrence, and with an
  empty payload the values of that dictionary are returned as they are.
\<close>

theorem overrides_one_per_id:
  "(apply_manual_overrides lib incidents payload = Inr out \<longrightarrow>
      distinct (map inc_id out) \<and>
      (\<forall>inc \<in> set out.
         (\<exists>l. find (\<lambda>x. inc_id x = inc_id inc) (rev incidents) = Some l \<and> frame_eq inc l) \<or>
         (\<exists>raws raw. py_iter (dict_get payload ''manual_incidents'' (PList [])) = Inr raws \<and>
            PDict raw \<in> set raws \<and> manual_incident lib raw = Inr (Some inc)))) \<and>
   map_of (index_by_id incidents) k = find (\<lambda>x. inc_id x = k) (rev incidents) \<and>
   apply_manual_overrides lib incidents [] = Inr (map snd (index_by_id incidents))"
proof (intro conjI impI)
  assume a: "apply_manual_overrides lib incidents payload = Inr out"
  from overrides_provenance[OF a] show "distinct (map inc_id out)" by simp
  from overrides_provenance[OF a] show "\<forall>inc \<in> set out.
         (\<exists>l. find (\<lambda>x. inc_id x = inc_id inc) (rev incidents) = Some l \<and> frame_eq inc l) \<or>
         (\<exists>raws raw. py_iter (dict_get payload ''manual_incidents'' (PList [])) = Inr raws \<and>
            PDict raw \<in> set raws \<and> manual_incident lib raw = Inr (Some inc))" by simp
next
  show "map_of (index_by_id incidents) k = find (\<lambda>x. inc_id x = k) (rev incidents)"
    by (rule map_of_index)
next
  show "apply_manual_overrides lib incidents [] = Inr (map snd (index_by_id incidents))"
    by (rule apply_manual_overrides_empty)
qed

theorem overrides_one_per_id_witness:
  "inc_id feed_demo = inc_id demo_incident \<and> feed_demo \<noteq> demo_incident \<and>
   apply_manual_overrides demo_lib [feed_demo, manual_demo, demo_incident] [] =
     Inr [demo_incident, manual_demo] \<and>
   distinct (map inc_id [demo_incident, manual_demo]) \<and>
   find (\<lambda>x. inc_id x = inc_id demo_incident) (rev [feed_demo, manual_demo, demo_incident]) =
     Some demo_incident"
proof -
  have i: "inc_id feed_demo = inc_id demo_incident" by code_simp
  have n: "feed_demo \<noteq> demo_incident" by (simp add: feed_demo_def demo_incident_def)
  have e: "apply_manual_overrides demo_lib [feed_demo, manual_demo, demo_incident] [] =
     Inr [demo_incident, manual_demo]" by code_simp
  have f: "find (\<lambda>x. inc_id x = inc_id demo_incident) (rev [feed_demo, manual_demo, demo_incident]) =
     Some demo_incident" by simp
  from overrides_one_per_id[of demo_lib "[feed_demo, manual_demo, demo_incident]" "[]"
      "[demo_incident, manual_demo]", THEN conjunct1, THEN mp, OF e]
  have "distinct (map inc_id [demo_incident, manual_demo])" by (rule conjunct1)
  with i n e f show ?thesis by blast
qed


section \<open>Properties of the coordinates\<close>











section \<open>Properties of the merge\<close>

text \<open>
  C1: first-writer-wins does not hold for the delay-listing source. The delay-listing
  incidents are appended without consulting or extending \<open>seen\<close>, and the dictionary of
  \<open>apply_manual_overrides\<close> keeps the last incident of an id. So a delay-listing incident
  replaces a feed incident with its id, and a sitemap or search incident replaces a
  delay-listing incident with its id, while between the feed, the sitemap and the search
  sources the first writer wins. The example is a feed item whose id, computed from its
  link and title, is the id of the incident that the parser returns for \<open>demo_lines\<close>.
\<close>

theorem delay_listing_bypasses_seen:
  "build_dataset_incidents lib [a] [b\<lparr>inc_id := inc_id a\<rparr>] [] [] [] = Inr [b\<lparr>inc_id := inc_id a\<rparr>] \<and>
   build_dataset_incidents lib [] [a] [b\<lparr>inc_id := inc_id a\<rparr>] [] [] = Inr [b\<lparr>inc_id := inc_id a\<rparr>] \<and>
   build_dataset_incidents lib [] [a] [] [b\<lparr>inc_id := inc_id a\<rparr>] [] = Inr [b\<lparr>inc_id := inc_id a\<rparr>] \<and>
   build_dataset_incidents lib [a] [] [b\<lparr>inc_id := inc_id a\<rparr>] [] [] = Inr [a] \<and>
   build_dataset_incidents lib [a] [] [] [b\<lparr>inc_id := inc_id a\<rparr>] [] = Inr [a] \<and>
   inc_id feed_demo = incident_id demo_lib (url feed_demo) (title feed_demo) \<and>
   parse_wv511_i79_incidents demo_lib demo_lines = Some (Inr [demo_incident]) \<and>
   inc_id feed_demo = inc_id demo_incident \<and> feed_demo \<noteq> demo_incident \<and>
   build_dataset_incidents demo_lib [feed_demo] [demo_incident] [] [] [] = Inr [demo_incident]"
proof (intro conjI)
  show "build_dataset_incidents lib [a] [b\<lparr>inc_id := inc_id a\<rparr>] [] [] [] = Inr [b\<lparr>inc_id := inc_id a\<rparr>]"
    by (simp add: build_dataset_incidents_def apply_manual_overrides_empty index_by_id_def)
  show "build_dataset_incidents lib [] [a] [b\<lparr>inc_id := inc_id a\<rparr>] [] [] = Inr [b\<lparr>inc_id := inc_id a\<rparr>]"
    by (simp add: build_dataset_incidents_def apply_manual_overrides_empty index_by_id_def)
  show "build_dataset_incidents lib [] [a] [] [b\<lparr>inc_id := inc_id a\<rparr>] [] = Inr [b\<lparr>inc_id := inc_id a\<rparr>]"
    by (simp add: build_dataset_incidents_def apply_manual_overrides_empty index_by_id_def)
  show "build_dataset_incidents lib [a] [] [b\<lparr>inc_id := inc_id a\<rparr>] [] [] = Inr [a]"
    by (simp add: build_dataset_incidents_def apply_manual_overrides_empty index_by_id_def)
  show "build_dataset_incidents lib [a] [] [] [b\<lparr>inc_id := inc_id a\<rparr>] [] = Inr [a]"
    by (simp add: build_dataset_incidents_def apply_manual_overrides_empty index_by_id_def)
  show "inc_id feed_demo = incident_id demo_lib (url feed_demo) (title feed_demo)" by code_simp
  show "parse_wv511_i79_incidents demo_lib demo_lines = Some (Inr [demo_incident])" by code_simp
  show "inc_id feed_demo = inc_id demo_incident" by (simp add: feed_demo_def demo_incident_def)
  show "feed_demo \<noteq> demo_incident" by (simp add: feed_demo_def demo_incident_def)
  show "build_dataset_incidents demo_lib [feed_demo] [demo_incident] [] [] [] = Inr [demo_incident]"
    by code_simp
qed


end
